theory Spec2Isabelle
  imports Complex_Main "HOL-Library.Sublist" "HOL-Library.Multiset" "HOL-Library.Char_ord"
    "HOL-Library.List_Lexorder" "HOL-Library.Product_Lexorder"
begin

section \<open>Customer churn notebook: data preparation, split and evaluation\<close>

text \<open>
  The notebook \<^verbatim>\<open>customised_xgboost_customer_churn_batch_transform.ipynb\<close> is a
  sequence of cells that call pandas, numpy and scikit-learn. Each cell that the
  properties below talk about is embedded as a function on explicit values; the library
  calls it makes are embedded next to it, following the libraries' documented behaviour
  (the parameters the notebook leaves out take their defaults). Python exceptions are
  values of type \<open>error\<close>.
\<close>

datatype error = KeyError string | NameError string | ValueError

subsection \<open>Data frames\<close>

text \<open>
  A pandas \<open>DataFrame\<close> is an index (one label per row; \<open>read_csv\<close> numbers the rows
  \<open>0, 1, 2, ...\<close>) and a list of named columns, each with a dtype and one value per
  row. A value is an integer, a double (taken as the rational it stands for), a string
  or the missing value \<open>NaN\<close> that \<open>read_csv\<close> puts in place of an empty field
  (cell 8 of the notebook counts them with \<open>churn.isnull()\<close>). Two values are the same
  when they are the same constructor on the same argument, which is how pandas compares
  rows and categories within a column of one Python type (\<open>NaN\<close> included).
\<close>

datatype cell = IntV int | FloatV rat | StrV string | NaN

datatype dtype = Int64 | Float64 | Object | UInt8

record column =
  name :: string
  dtype :: dtype
  vals :: "cell list"

record frame =
  index :: "nat list"
  columns :: "column list"

definition nrows :: "frame \<Rightarrow> nat" where
  \<comment> \<open>\<^verbatim>\<open>len(df)\<close>\<close>
  "nrows df = length (index df)"

definition colnames :: "frame \<Rightarrow> string list" where
  \<comment> \<open>\<^verbatim>\<open>df.columns\<close>\<close>
  "colnames df = map name (columns df)"

definition row_values :: "frame \<Rightarrow> nat \<Rightarrow> cell list" where
  \<comment> \<open>the values of the row at position \<open>i\<close>, in column order\<close>
  "row_values df i = map (\<lambda>c. vals c ! i) (columns df)"

definition rows :: "frame \<Rightarrow> (nat \<times> cell list) list" where
  \<comment> \<open>the records of the frame: index label and values, in row order\<close>
  "rows df = map (\<lambda>i. (index df ! i, row_values df i)) [0..<nrows df]"

definition take_rows :: "nat list \<Rightarrow> frame \<Rightarrow> frame" where
  \<comment> \<open>\<^verbatim>\<open>df.take(locs)\<close>: the rows at the positions \<open>locs\<close>, in that order, with
    their index labels. Every call below passes positions below \<open>nrows df\<close>.\<close>
  "take_rows locs df =
     \<lparr>index = map (\<lambda>i. index df ! i) locs,
      columns = map (\<lambda>c. c\<lparr>vals := map (\<lambda>i. vals c ! i) locs\<rparr>) (columns df)\<rparr>"

definition mask_positions :: "bool list \<Rightarrow> nat list" where
  \<comment> \<open>the positions at which a boolean mask is true\<close>
  "mask_positions bs = filter (\<lambda>i. bs ! i) [0..<length bs]"

definition getitem_mask :: "frame \<Rightarrow> bool list \<Rightarrow> frame" where
  \<comment> \<open>\<^verbatim>\<open>df[mask]\<close> for a boolean mask with one entry per row\<close>
  "getitem_mask df bs = take_rows (mask_positions bs) df"

definition slice_rows :: "nat \<Rightarrow> nat \<Rightarrow> frame \<Rightarrow> frame" where
  \<comment> \<open>\<^verbatim>\<open>df[st:en]\<close> for \<open>0 \<le> st\<close> and \<open>0 \<le> en\<close>: Python clips both bounds to the
    number of rows and gives no row when \<open>en \<le> st\<close>\<close>
  "slice_rows st en df =
     \<lparr>index = take (en - st) (drop st (index df)),
      columns = map (\<lambda>c. c\<lparr>vals := take (en - st) (drop st (vals c))\<rparr>) (columns df)\<rparr>"

definition getitem :: "string \<Rightarrow> frame \<Rightarrow> error + frame" where
  \<comment> \<open>\<^verbatim>\<open>df[key]\<close>: the column(s) named \<open>key\<close>; \<open>KeyError\<close> when there is none\<close>
  "getitem key df =
     (case filter (\<lambda>c. name c = key) (columns df) of
        [] \<Rightarrow> Inl (KeyError key)
      | cs \<Rightarrow> Inr (df\<lparr>columns := cs\<rparr>))"

definition drop_columns :: "string list \<Rightarrow> frame \<Rightarrow> error + frame" where
  \<comment> \<open>\<^verbatim>\<open>df.drop(labels, axis=1)\<close>: \<open>KeyError\<close> when a label names no column (here
    with the first such label), else the frame without the columns named\<close>
  "drop_columns labels df =
     (case filter (\<lambda>l. l \<notin> set (colnames df)) labels of
        [] \<Rightarrow> Inr (df\<lparr>columns := filter (\<lambda>c. name c \<notin> set labels) (columns df)\<rparr>)
      | l # _ \<Rightarrow> Inl (KeyError l))"

definition concat_columns :: "frame \<Rightarrow> frame \<Rightarrow> frame" where
  \<comment> \<open>\<^verbatim>\<open>pd.concat([a, b], axis=1)\<close> of two frames with the same index\<close>
  "concat_columns a b = a\<lparr>columns := columns a @ columns b\<rparr>"

definition iloc_columns_from :: "nat \<Rightarrow> frame \<Rightarrow> frame" where
  \<comment> \<open>\<^verbatim>\<open>df.iloc[:, k:]\<close>\<close>
  "iloc_columns_from k df = df\<lparr>columns := drop k (columns df)\<rparr>"

definition to_csv :: "frame \<Rightarrow> cell list list" where
  \<comment> \<open>\<^verbatim>\<open>df.to_csv(path, header=False, index=False)\<close>: one line per row, holding the
    row's values and nothing else\<close>
  "to_csv df = map (row_values df) [0..<nrows df]"

subsection \<open>Cell 11: the columns that are cleaned\<close>

text \<open>
  \<^verbatim>\<open>churn = churn.drop('Phone', axis=1)\<close>
  \<^verbatim>\<open>churn['Area Code'] = churn['Area Code'].astype(object)\<close>

  \<open>astype(object)\<close> keeps the values and changes the dtype of the column, so that
  \<open>get_dummies\<close> treats the area code as a categorical field.
\<close>

definition cell11 :: "frame \<Rightarrow> error + frame" where
  "cell11 churn =
     (case drop_columns [''Phone''] churn of
        Inl e \<Rightarrow> Inl e
      | Inr churn' \<Rightarrow>
          (case getitem ''Area Code'' churn' of
             Inl e \<Rightarrow> Inl e
           | Inr area_code \<Rightarrow>
               Inr (churn'\<lparr>columns :=
                    map (\<lambda>c. if name c = ''Area Code'' then c\<lparr>dtype := Object\<rparr> else c)
                      (columns churn')\<rparr>)))"


subsection \<open>Cell 12: duplicate rows\<close>

text \<open>
  \<^verbatim>\<open>churn = churn.drop_duplicates()\<close>

  With the defaults (\<open>subset=None\<close>, \<open>keep='first'\<close>) pandas returns a frame that is
  empty (no row or no column) as it is, and otherwise selects the rows that
  \<open>duplicated()\<close> does not mark. \<open>duplicated()\<close> walks the rows in order with a table
  of the rows seen so far and marks a row whose values are already in the table.
\<close>

definition empty :: "frame \<Rightarrow> bool" where
  \<comment> \<open>\<^verbatim>\<open>df.empty\<close>\<close>
  "empty df = (nrows df = 0 \<or> columns df = [])"

fun duplicated_from :: "cell list list \<Rightarrow> cell list list \<Rightarrow> bool list" where
  "duplicated_from seen [] = []"
| "duplicated_from seen (r # rs) = (r \<in> set seen) # duplicated_from (r # seen) rs"

definition duplicated :: "frame \<Rightarrow> bool list" where
  "duplicated df = duplicated_from [] (map (row_values df) [0..<nrows df])"

definition drop_duplicates :: "frame \<Rightarrow> frame" where
  "drop_duplicates df =
     (if empty df then df else getitem_mask df (map Not (duplicated df)))"

subsection \<open>Cell 32: one-hot encoding and the target column\<close>

text \<open>
  \<^verbatim>\<open>model_data = pd.get_dummies(churn)\<close>
  \<^verbatim>\<open>model_data = pd.concat([model_data['Churn?_True.'],\<close>
  \<^verbatim>\<open>    model_data.drop(['Churn?_False.', 'Churn?_True.'], axis=1)], axis=1)\<close>

  \<open>get_dummies\<close> with its defaults keeps the columns whose dtype is not \<open>object\<close>, in
  their order, and appends for every \<open>object\<close> column, in order, one indicator column
  per level. The levels of a column are its distinct values without \<open>NaN\<close>
  (\<open>dummy_na=False\<close>), sorted: numbers by value before strings by code point. An
  indicator column is named \<open>column_level\<close>, with \<open>str(level)\<close> for the level, and
  holds 1 in the rows whose value is the level and 0 in the others.

  \<open>str\<close> of a Python integer is its decimal numeral. \<open>str\<close> of a double is the shortest
  numeral that reads back as the same double; it is an argument, \<open>float_str\<close>, of the
  functions below, and no property depends on it.
\<close>

fun str_nat :: "nat \<Rightarrow> string" where
  "str_nat n =
     (if n < 10 then [char_of (48 + n)] else str_nat (n div 10) @ [char_of (48 + n mod 10)])"

declare str_nat.simps [simp del]

definition str_int :: "int \<Rightarrow> string" where
  "str_int i = (if i < 0 then ''-'' @ str_nat (nat (- i)) else str_nat (nat i))"

definition py_str :: "(rat \<Rightarrow> string) \<Rightarrow> cell \<Rightarrow> string" where
  "py_str float_str v =
     (case v of IntV i \<Rightarrow> str_int i | FloatV q \<Rightarrow> float_str q | StrV s \<Rightarrow> s | NaN \<Rightarrow> ''nan'')"

definition level_key :: "cell \<Rightarrow> bool \<times> rat \<times> string" where
  \<comment> \<open>the sorting key of a level: numbers first, by value; then strings\<close>
  "level_key v =
     (case v of IntV i \<Rightarrow> (False, of_int i, '''') | FloatV q \<Rightarrow> (False, q, '''')
      | StrV s \<Rightarrow> (True, 0, s) | NaN \<Rightarrow> (True, 0, ''''))"

definition levels :: "cell list \<Rightarrow> cell list" where
  "levels xs = sort_key level_key (remdups (filter (\<lambda>v. v \<noteq> NaN) xs))"

definition dummy_columns :: "(rat \<Rightarrow> string) \<Rightarrow> column \<Rightarrow> column list" where
  "dummy_columns float_str c =
     map (\<lambda>v. \<lparr>name = name c @ ''_'' @ py_str float_str v, dtype = UInt8,
                vals = map (\<lambda>x. if x = v then IntV 1 else IntV 0) (vals c)\<rparr>)
       (levels (vals c))"

definition get_dummies :: "(rat \<Rightarrow> string) \<Rightarrow> frame \<Rightarrow> frame" where
  "get_dummies float_str df =
     df\<lparr>columns :=
          filter (\<lambda>c. dtype c \<noteq> Object) (columns df)
          @ concat (map (dummy_columns float_str) (filter (\<lambda>c. dtype c = Object) (columns df)))\<rparr>"

definition cell32 :: "(rat \<Rightarrow> string) \<Rightarrow> frame \<Rightarrow> error + frame" where
  "cell32 float_str churn =
     (let model_data = get_dummies float_str churn
      in case getitem ''Churn?_True.'' model_data of
           Inl e \<Rightarrow> Inl e
         | Inr y \<Rightarrow>
             (case drop_columns [''Churn?_False.'', ''Churn?_True.''] model_data of
                Inl e \<Rightarrow> Inl e
              | Inr x \<Rightarrow> Inr (concat_columns y x)))"

subsection \<open>Cell 34: shuffle and split\<close>

text \<open>
  \<^verbatim>\<open>train_data, validation_data, test_data = np.split(\<close>
  \<^verbatim>\<open>    model_data.sample(frac=1, random_state=1729),\<close>
  \<^verbatim>\<open>    [int(0.7 * len(model_data)), int(0.9 * len(model_data))])\<close>

  The two cut points are computed in binary64 arithmetic. The literals \<open>0.7\<close> and
  \<open>0.9\<close> denote the doubles \<open>c07 / 2^53\<close> and \<open>c09 / 2^53\<close>; \<open>len\<close> is converted to
  the nearest double, the product is rounded to the nearest double (ties to the even
  significand), and \<open>int\<close> truncates. A natural number \<open>p\<close> counts units of \<open>2^-53\<close>
  below; \<open>len\<close> is less than \<open>2^63\<close>, so no operation overflows.
\<close>

definition c07 :: nat where
  \<comment> \<open>\<^verbatim>\<open>0.7\<close> is \<^verbatim>\<open>0x3FE6666666666666\<close>\<close>
  "c07 = 6305039478318694"

definition c09 :: nat where
  \<comment> \<open>\<^verbatim>\<open>0.9\<close> is \<^verbatim>\<open>0x3FECCCCCCCCCCCCD\<close>\<close>
  "c09 = 8106479329266893"

fun excess_bits :: "nat \<Rightarrow> nat" where
  \<comment> \<open>how many low bits of \<open>p\<close> do not fit a significand of 53 bits\<close>
  "excess_bits p = (if p < 2 ^ 53 then 0 else Suc (excess_bits (p div 2)))"

declare excess_bits.simps [simp del]

definition round_to :: "nat \<Rightarrow> nat \<Rightarrow> nat" where
  \<comment> \<open>\<open>p\<close> rounded to the nearest multiple of \<open>2^e\<close>, a tie to the multiple with an
    even quotient\<close>
  "round_to e p =
     (let q = p div 2 ^ e; r = p mod 2 ^ e
      in (if 2 * r < 2 ^ e then q
          else if 2 ^ e < 2 * r then q + 1
          else if even q then q else q + 1) * 2 ^ e)"

definition round_binary64 :: "nat \<Rightarrow> nat" where
  \<comment> \<open>the nearest number with a significand of 53 bits\<close>
  "round_binary64 p = round_to (excess_bits p) p"

definition int_of_product :: "nat \<Rightarrow> nat \<Rightarrow> nat" where
  \<comment> \<open>\<^verbatim>\<open>int(c * n)\<close> for the double \<open>c / 2^53\<close> and the Python integer \<open>n \<ge> 0\<close>\<close>
  "int_of_product c n = round_binary64 (c * round_binary64 n) div 2 ^ 53"

definition sample :: "nat list \<Rightarrow> frame \<Rightarrow> frame" where
  \<comment> \<open>\<^verbatim>\<open>df.sample(frac=1, random_state=1729)\<close>: pandas draws \<open>len(df)\<close> positions
    without replacement from a generator seeded with 1729 and takes the rows at these
    positions. The draw \<open>locs\<close> is an argument here; it is a permutation of
    \<open>0, ..., len(df) - 1\<close>.\<close>
  "sample locs df = take_rows locs df"

definition np_split :: "frame \<Rightarrow> nat \<Rightarrow> nat \<Rightarrow> frame \<times> frame \<times> frame" where
  \<comment> \<open>\<^verbatim>\<open>np.split(df, [i1, i2])\<close>: the slices between consecutive division points
    \<open>0, i1, i2, len(df)\<close>\<close>
  "np_split df i1 i2 = (slice_rows 0 i1 df, slice_rows i1 i2 df, slice_rows i2 (nrows df) df)"

definition cell34 :: "nat list \<Rightarrow> frame \<Rightarrow> frame \<times> frame \<times> frame" where
  "cell34 locs model_data =
     np_split (sample locs model_data)
       (int_of_product c07 (nrows model_data)) (int_of_product c09 (nrows model_data))"

subsection \<open>Cell 58: the batch input\<close>

text \<open>
  \<^verbatim>\<open>test_data_batch = test_data.iloc[:, 1:] # delete the target column\<close>
  \<^verbatim>\<open>test_data_batch.to_csv('test_data_Batch.csv',header=False, index = False)\<close>
\<close>

definition cell58 :: "frame \<Rightarrow> frame" where
  "cell58 test_data = iloc_columns_from 1 test_data"

subsection \<open>Cell 65: thresholding the batch output\<close>

text \<open>
  \<^verbatim>\<open>pred_y = np.round(batch_output) # threshold is 0.5\<close>

  \<open>np.round\<close> with no \<open>decimals\<close> rounds each entry to the nearest integer and
  rounds a value exactly half-way between two integers to the even one. On a finite
  double the operation is exact, so a score is taken as the rational number the double
  stands for, and the result (a double with an integral value) as that integer.
\<close>

definition np_round :: "rat \<Rightarrow> int" where
  "np_round x =
     (let f = \<lfloor>x\<rfloor>; d = x - of_int f
      in if d < 1 / 2 then f
         else if 1 / 2 < d then f + 1
         else if even f then f else f + 1)"


subsection \<open>Cell 66: the evaluator\<close>











subsection \<open>The notebook's cells and its global names\<close>

text \<open>
  The cells run in one Python namespace. For the question which names are bound when a
  cell runs, a cell is the sequence of its reads (\<open>Load\<close>) and bindings (\<open>Store\<close>) of
  global names, in evaluation order: the right-hand side of an assignment before its
  targets, a called name before its arguments, the arguments from left to right, an
  \<open>import\<close> or \<open>def\<close> as a binding. Builtins (\<open>print\<close>, \<open>len\<close>, \<open>int\<close>, \<open>open\<close>) are
  always bound and are left out, as are attribute and item accesses. Reading a name
  that is not bound raises \<open>NameError\<close> and ends the cell; the bindings made before
  stay.
\<close>

datatype event = Load string | Store string

fun exec :: "event list \<Rightarrow> string set \<Rightarrow> error option \<times> string set" where
  "exec [] ns = (None, ns)"
| "exec (Store x # es) ns = exec es (insert x ns)"
| "exec (Load x # es) ns = (if x \<in> ns then exec es ns else (Some (NameError x), ns))"

definition cell46 :: "event list" where
  \<comment> \<open>\<^verbatim>\<open>train_y = train_data.iloc[:,0]\<close>, \<^verbatim>\<open>train_X = train_data.iloc[:,1:]\<close>,
    \<^verbatim>\<open>valid_y = validation_data.iloc[:,0]\<close>, \<^verbatim>\<open>valid_X = validation_data.iloc[:,1:]\<close>\<close>
  "cell46 =
     [Load ''train_data'', Store ''train_y'', Load ''train_data'', Store ''train_X'',
      Load ''validation_data'', Store ''valid_y'', Load ''validation_data'', Store ''valid_X'']"

definition cell67 :: "event list" where
  \<comment> \<open>\<^verbatim>\<open>temp_precision, temp_recall, temp_f1, temp_accuracy, tn, fp, fn, tp =\<close>
    \<^verbatim>\<open>    get_score(test_y, pred_y)\<close>, where the call reads \<open>metrics\<close>;
    \<^verbatim>\<open>output = [temp_precision,temp_recall,temp_f1,temp_accuracy,tp, fp, tn, fn]\<close>;
    \<^verbatim>\<open>output = pd.Series(output, index=[...])\<close>; \<^verbatim>\<open>print(output[[...]])\<close>;
    \<^verbatim>\<open>from sklearn.metrics import classification_report\<close>;
    \<^verbatim>\<open>print(classification_report(test_y, pred_y))\<close>\<close>
  "cell67 =
     [Load ''get_score'', Load ''test_y'', Load ''pred_y'', Load ''metrics'',
      Store ''temp_precision'', Store ''temp_recall'', Store ''temp_f1'',
      Store ''temp_accuracy'', Store ''tn'', Store ''fp'', Store ''fn'', Store ''tp'',
      Load ''temp_precision'', Load ''temp_recall'', Load ''temp_f1'', Load ''temp_accuracy'',
      Load ''tp'', Load ''fp'', Load ''tn'', Load ''fn'', Store ''output'',
      Load ''pd'', Load ''output'', Store ''output'', Load ''output'',
      Store ''classification_report'', Load ''classification_report'', Load ''test_y'',
      Load ''pred_y'']"

definition notebook :: "(nat \<times> event list) list" where
  \<comment> \<open>the code cells, each with its number in the notebook; cells 5, 45 and 50 are
    shell commands and touch no Python name\<close>
  "notebook =
     [(1, [Store ''bucket'', Store ''prefix'', Store ''boto3'', Store ''re'',
           Store ''get_execution_role'', Load ''get_execution_role'', Store ''role'']),
      (3, [Store ''pd'', Store ''np'', Store ''plt'', Store ''sns'', Store ''io'', Store ''os'',
           Store ''sys'', Store ''time'', Store ''json'', Store ''metrics'', Store ''display'',
           Store ''strftime'', Store ''gmtime'', Store ''sagemaker'', Store ''csv_serializer'']),
      (5, []),
      (6, [Load ''pd'', Store ''churn'', Load ''pd'', Load ''churn'']),
      (8, [Load ''churn'', Load ''churn'', Load ''churn'', Load ''churn'', Load ''churn'']),
      (11, [Load ''churn'', Store ''churn'', Load ''churn'', Load ''churn'']),
      (12, [Load ''churn'', Load ''churn'', Store ''churn'', Load ''churn'']),
      (15, [Load ''churn'']),
      (16, [Store ''categorial_variable'', Store ''continuous_variable'']),
      (18, [Store ''colours'', Load ''churn'', Store ''column'', Load ''column'',
            Load ''categorial_variable'', Load ''pd'', Load ''churn'', Load ''churn'',
            Load ''column'', Store ''table'', Load ''table'', Load ''plt'', Store ''fig'',
            Store ''ax'', Load ''table'', Load ''colours'', Load ''ax'', Load ''ax'',
            Load ''column'', Load ''ax'', Load ''plt'', Load ''sns'', Load ''plt'']),
      (21, [Load ''churn'', Store ''column'', Load ''column'', Load ''churn'', Load ''column'',
            Store ''hist'', Load ''plt'']),
      (24, [Load ''plt'', Store ''f'', Store ''ax'', Load ''sns'', Load ''churn'', Load ''ax'']),
      (27, [Load ''churn'', Store ''churn'']),
      (29, [Load ''pd'', Load ''churn'', Load ''plt'']),
      (32, [Load ''pd'', Load ''churn'', Store ''model_data'', Load ''pd'', Load ''model_data'',
            Load ''model_data'', Store ''model_data'']),
      (34, [Load ''np'', Load ''model_data'', Load ''model_data'', Load ''model_data'',
            Store ''train_data'', Store ''validation_data'', Store ''test_data'',
            Load ''train_data'', Load ''validation_data'']),
      (36, [Load ''boto3'', Load ''bucket'', Load ''os'', Load ''prefix'',
            Load ''boto3'', Load ''bucket'', Load ''os'', Load ''prefix'']),
      (38, [Store ''get_image_uri'', Load ''get_image_uri'', Load ''boto3'', Store ''container'']),
      (40, [Load ''sagemaker'', Load ''bucket'', Load ''prefix'', Store ''s3_input_train'',
            Load ''sagemaker'', Load ''bucket'', Load ''prefix'', Store ''s3_input_validation'']),
      (42, [Store ''model_name'']),
      (43, [Load ''sagemaker'', Store ''sess'', Load ''sagemaker'', Load ''container'',
            Load ''role'', Load ''model_name'', Load ''bucket'', Load ''prefix'', Load ''sess'',
            Store ''xgb'', Load ''xgb'', Load ''xgb'', Load ''s3_input_train'',
            Load ''s3_input_validation'']),
      (45, []),
      (46, cell46),
      (47, [Store ''xgboost'', Load ''xgboost'', Store ''customised_xgb'',
            Load ''customised_xgb'', Load ''train_X'', Load ''train_y'', Load ''valid_X'',
            Load ''valid_y'']),
      (49, [Store ''model_file_name'', Load ''customised_xgb'', Load ''model_file_name'']),
      (50, []),
      (52, [Store ''fObj'', Load ''os'', Load ''prefix'', Load ''model_file_name'', Store ''key'',
            Load ''boto3'', Load ''bucket'', Load ''key'', Load ''fObj'']),
      (54, [Load ''bucket'', Load ''key'', Store ''model_url'', Load ''model_url'']),
      (55, [Store ''customised_model_name'']),
      (56, [Load ''sagemaker'', Store ''sess'', Load ''sagemaker'', Load ''container'',
            Load ''role'', Load ''model_url'', Load ''customised_model_name'', Load ''bucket'',
            Load ''prefix'', Load ''sess'', Store ''customised_xgb'', Load ''customised_xgb'',
            Load ''customised_xgb'', Load ''s3_input_train'', Load ''s3_input_validation'']),
      (58, [Load ''test_data'', Store ''test_data_batch'', Load ''test_data_batch'',
            Load ''boto3'', Load ''bucket'', Load ''os'', Load ''prefix'']),
      (59, [Load ''bucket'', Load ''prefix'', Store ''s3_batch_input'', Load ''bucket'',
            Load ''prefix'', Store ''s3_batch_output'']),
      (61, [Load ''xgb'', Load ''s3_batch_output'', Store ''transformer'', Load ''transformer'',
            Load ''s3_batch_input'', Load ''transformer'']),
      (63, [Load ''bucket'', Load ''prefix'', Store ''batch_output'', Load ''pd'',
            Load ''batch_output'', Store ''batch_output'']),
      (65, [Load ''np'', Load ''batch_output'', Store ''pred_y'']),
      (66, [Store ''get_score'']),
      (67, cell67),
      (69, [Load ''plt'', Load ''pred_y'', Load ''plt'']),
      (72, [Store ''gmtime'', Store ''strftime'', Load ''bucket'', Load ''prefix'',
            Store ''batch_input'', Load ''bucket'', Load ''prefix'', Store ''batch_output'',
            Store ''Modelname'', Load ''strftime'', Load ''gmtime'', Store ''transformJobName'']),
      (73, [Load ''boto3'', Store ''client'']),
      (74, [Load ''client'', Load ''transformJobName'', Load ''Modelname'', Load ''batch_input'',
            Load ''batch_output'', Store ''create_batch''])]"

fun run_all :: "(nat \<times> event list) list \<Rightarrow> string set \<Rightarrow> (nat \<times> error) option \<times> string set" where
  \<comment> \<open>"Run All": the cells from top to bottom, up to the first one that raises\<close>
  "run_all [] ns = (None, ns)"
| "run_all ((k, es) # cells) ns =
     (case exec es ns of
        (Some e, ns') \<Rightarrow> (Some (k, e), ns')
      | (None, ns') \<Rightarrow> run_all cells ns')"

inductive reachable :: "string set \<Rightarrow> bool" where
  \<comment> \<open>the namespaces of a session: from a fresh kernel, any cell may be run at any
    time and any number of times, and a cell may stop at any point (by an exception
    of a library or service, or by an interrupt) with its bindings so far\<close>
  fresh: "reachable {}"
| run: "reachable ns \<Longrightarrow> (k, es) \<in> set notebook \<Longrightarrow> reachable (snd (exec (take j es) ns))"

subsection \<open>A small table\<close>

text \<open>
  Four customers with the columns \<open>State\<close>, \<open>Day Mins\<close> and \<open>Churn?\<close>; the third row
  repeats the first.
\<close>

definition small_churn :: frame where
  "small_churn =
     \<lparr>index = [0, 1, 2, 3],
      columns =
        [\<lparr>name = ''State'', dtype = Object,
           vals = [StrV ''KS'', StrV ''OH'', StrV ''KS'', StrV ''NJ'']\<rparr>,
         \<lparr>name = ''Day Mins'', dtype = Float64,
           vals = [FloatV (2651 / 10), FloatV (1616 / 10), FloatV (2651 / 10), FloatV 243]\<rparr>,
         \<lparr>name = ''Churn?'', dtype = Object,
           vals = [StrV ''False.'', StrV ''True.'', StrV ''False.'', StrV ''False.'']\<rparr>]\<rparr>"

text \<open>Two customers; the state of the second is missing in the file.\<close>

definition churn_missing_state :: frame where
  "churn_missing_state =
     \<lparr>index = [0, 1],
      columns =
        [\<lparr>name = ''State'', dtype = Object, vals = [StrV ''KS'', NaN]\<rparr>,
         \<lparr>name = ''Churn?'', dtype = Object, vals = [StrV ''False.'', StrV ''True.'']\<rparr>]\<rparr>"

text \<open>The model dataset that cell 32 makes of \<open>small_churn\<close>.\<close>

definition small_model_data :: frame where
  "small_model_data =
     \<lparr>index = [0, 1, 2, 3],
      columns =
        [\<lparr>name = ''Churn?_True.'', dtype = UInt8, vals = [IntV 0, IntV 1, IntV 0, IntV 0]\<rparr>,
         \<lparr>name = ''Day Mins'', dtype = Float64,
           vals = [FloatV (2651 / 10), FloatV (1616 / 10), FloatV (2651 / 10), FloatV 243]\<rparr>,
         \<lparr>name = ''State_KS'', dtype = UInt8, vals = [IntV 1, IntV 0, IntV 1, IntV 0]\<rparr>,
         \<lparr>name = ''State_NJ'', dtype = UInt8, vals = [IntV 0, IntV 0, IntV 0, IntV 1]\<rparr>,
         \<lparr>name = ''State_OH'', dtype = UInt8, vals = [IntV 0, IntV 1, IntV 0, IntV 0]\<rparr>]\<rparr>"

text \<open>
  No column of these tables has a double as a level, so any function can stand for
  \<open>str\<close> on doubles when they are encoded.
\<close>

definition float_str0 :: "rat \<Rightarrow> string" where
  "float_str0 q = []"

section \<open>Properties\<close>

subsection \<open>Rows of selected frames\<close>

lemma nrows_take_rows: "nrows (take_rows locs df) = length locs"
  by (simp add: nrows_def take_rows_def)

lemma row_values_take_rows:
  "i < length locs \<Longrightarrow> row_values (take_rows locs df) i = row_values df (locs ! i)"
  by (simp add: row_values_def take_rows_def o_def)

lemma rows_take_rows:
  "rows (take_rows locs df) = map (\<lambda>i. (index df ! i, row_values df i)) locs"
  by (rule nth_equalityI)
    (simp_all add: rows_def nrows_take_rows row_values_take_rows, simp add: take_rows_def)

lemma rows_nth: "i < nrows df \<Longrightarrow> rows df ! i = (index df ! i, row_values df i)"
  by (simp add: rows_def)

lemma length_rows: "length (rows df) = nrows df"
  by (simp add: rows_def)

lemma map_nth_map: "map ((!) (map f locs)) [0..<length locs] = map f locs"
  using map_nth [of "map f locs"] by simp

lemma take_rows_all: "take_rows [0..<length locs] (take_rows locs df) = take_rows locs df"
  by (simp add: take_rows_def o_def map_nth_map)

subsection \<open>The rows that \<open>duplicated\<close> marks\<close>

lemma length_duplicated_from: "length (duplicated_from seen rs) = length rs"
  by (induction rs arbitrary: seen) simp_all

lemma nth_duplicated_from:
  "i < length rs \<Longrightarrow> duplicated_from seen rs ! i = (rs ! i \<in> set seen \<union> set (take i rs))"
proof (induction rs arbitrary: seen i)
  case Nil
  then show ?case by simp
next
  case (Cons r rs)
  then show ?case by (cases i) auto
qed

lemma unmarked_positions:
  "mask_positions (map Not (duplicated_from [] rs)) =
     filter (\<lambda>i. rs ! i \<notin> set (take i rs)) [0..<length rs]"
  unfolding mask_positions_def
  by (rule filter_cong) (simp_all add: length_duplicated_from nth_duplicated_from)

lemma first_occurrences_distinct:
  "distinct (map (\<lambda>i. rs ! i) (filter (\<lambda>i. rs ! i \<notin> set (take i rs)) [0..<length rs]))"
proof -
  let ?K = "filter (\<lambda>i. rs ! i \<notin> set (take i rs)) [0..<length rs]"
  have earlier: "rs ! i \<in> set (take k rs)" if "i < k" "k < length rs" for i k
    using that by (auto simp add: in_set_conv_nth intro!: exI [of _ i])
  have "inj_on (\<lambda>i. rs ! i) (set ?K)"
  proof (rule inj_onI)
    fix i k
    assume i: "i \<in> set ?K" and k: "k \<in> set ?K" and eq: "rs ! i = rs ! k"
    show "i = k"
    proof (rule ccontr)
      assume "i \<noteq> k"
      then consider "i < k" | "k < i" by linarith
      then show False
      proof cases
        case 1
        then have "rs ! i \<in> set (take k rs)" using k by (intro earlier) auto
        then show False using k eq by simp
      next
        case 2
        then have "rs ! k \<in> set (take i rs)" using i by (intro earlier) auto
        then show False using i eq by simp
      qed
    qed
  qed
  then show ?thesis by (simp add: distinct_map)
qed

lemma distinct_no_marks:
  assumes "distinct rs"
  shows "filter (\<lambda>i. rs ! i \<notin> set (take i rs)) [0..<length rs] = [0..<length rs]"
proof -
  have "rs ! i \<notin> set (take i rs)" if "i < length rs" for i
  proof
    assume "rs ! i \<in> set (take i rs)"
    then obtain j where "j < i" "rs ! j = rs ! i"
      using that by (auto simp add: in_set_conv_nth)
    then show False using assms that by (auto simp add: distinct_conv_nth)
  qed
  then show ?thesis by (simp add: filter_id_conv)
qed

lemma drop_duplicates_rows_aux:
  "\<not> empty df \<Longrightarrow> drop_duplicates df =
     take_rows (filter (\<lambda>i. row_values df i \<notin> row_values df ` {0..<i}) [0..<nrows df]) df"
proof -
  let ?rs = "map (row_values df) [0..<nrows df]"
  assume ne: "\<not> empty df"
  have "filter (\<lambda>i. ?rs ! i \<notin> set (take i ?rs)) [0..<length ?rs] =
      filter (\<lambda>i. row_values df i \<notin> row_values df ` {0..<i}) [0..<nrows df]"
    by (rule filter_cong) (auto simp add: take_map)
  then show ?thesis
    using ne by (simp add: drop_duplicates_def getitem_mask_def duplicated_def unmarked_positions)
qed


lemma kept_positions_conv:
  "filter (\<lambda>i. row_values df i \<notin> row_values df ` {0..<i}) [0..<nrows df] =
     filter (\<lambda>i. \<forall>j<i. snd (rows df ! j) \<noteq> snd (rows df ! i)) [0..<nrows df]"
proof (rule filter_cong)
  fix i
  assume "i \<in> set [0..<nrows df]"
  then have i: "i < nrows df" by simp
  have "(row_values df i \<in> row_values df ` {0..<i}) = (\<exists>j<i. row_values df j = row_values df i)"
  proof
    assume "row_values df i \<in> row_values df ` {0..<i}"
    then show "\<exists>j<i. row_values df j = row_values df i" by auto
  next
    assume "\<exists>j<i. row_values df j = row_values df i"
    then obtain j where "j < i" "row_values df i = row_values df j" by auto
    then show "row_values df i \<in> row_values df ` {0..<i}" by (intro image_eqI [of _ _ j]) auto
  qed
  then show "(row_values df i \<notin> row_values df ` {0..<i}) =
      (\<forall>j<i. snd (rows df ! j) \<noteq> snd (rows df ! i))"
    using i by (simp add: rows_nth)
qed simp

lemma drop_duplicates_rows:
  "columns df \<noteq> [] \<Longrightarrow> rows (drop_duplicates df) =
     map (\<lambda>i. rows df ! i)
       (filter (\<lambda>i. \<forall>j<i. snd (rows df ! j) \<noteq> snd (rows df ! i)) [0..<nrows df])"
proof (cases "nrows df = 0")
  case True
  then show ?thesis by (simp add: drop_duplicates_def empty_def rows_def)
next
  case False
  assume "columns df \<noteq> []"
  then have ne: "\<not> empty df" using False by (simp add: empty_def)
  have "map (\<lambda>i. (index df ! i, row_values df i)) (filter P [0..<nrows df]) =
      map (\<lambda>i. rows df ! i) (filter P [0..<nrows df])" for P
    by (rule map_cong) (auto simp add: rows_nth)
  then show ?thesis
    by (simp add: drop_duplicates_rows_aux [OF ne] rows_take_rows kept_positions_conv)
qed

lemma first_occurrence_exists:
  "i < n \<Longrightarrow> \<exists>k\<le>i. f k = f i \<and> (\<forall>j<k. f j \<noteq> f k)" for f :: "nat \<Rightarrow> 'a"
proof (induction i rule: less_induct)
  case (less i)
  show ?case
  proof (cases "\<forall>j<i. f j \<noteq> f i")
    case True
    then show ?thesis by auto
  next
    case False
    then obtain j where j: "j < i" "f j = f i" by auto
    then obtain k where "k \<le> j" "f k = f j" "\<forall>l<k. f l \<noteq> f k"
      using less.IH [of j] less.prems by auto
    then show ?thesis using j by (intro exI [of _ k]) auto
  qed
qed

lemma drop_duplicates_no_columns: "columns df = [] \<Longrightarrow> drop_duplicates df = df"
  by (simp add: drop_duplicates_def empty_def)

lemma getitem_has_columns: "getitem key df = Inr a \<Longrightarrow> columns df \<noteq> []"
  by (auto simp add: getitem_def split: list.splits)

lemma cell11_has_columns: "cell11 raw = Inr churn \<Longrightarrow> columns churn \<noteq> []"
proof -
  assume c: "cell11 raw = Inr churn"
  then obtain churn' area_code where d: "drop_columns [''Phone''] raw = Inr churn'"
    and g: "getitem ''Area Code'' churn' = Inr area_code"
    by (auto simp add: cell11_def split: sum.splits)
  have "columns churn' \<noteq> []" using g by (rule getitem_has_columns)
  then show ?thesis using c d g by (auto simp add: cell11_def)
qed

text \<open>
  C5. Cell 12 runs on a table that has columns (\<open>cell11_has_columns\<close>: cell 11 has
  just assigned the column \<open>Area Code\<close>). The rows of the result are the rows of the
  input at the positions whose values occur at no earlier position, in the input's
  order and with their index labels: the first occurrence of each distinct row is kept
  and every later equal row is removed. So the result is a subsequence of the input, no
  two of its rows have the same values, and every row of the input has its values in
  the result.
\<close>

theorem drop_duplicates_keeps_first:
  assumes "columns df \<noteq> []"
  shows "rows (drop_duplicates df) =
      map (\<lambda>i. rows df ! i)
        (filter (\<lambda>i. \<forall>j<i. snd (rows df ! j) \<noteq> snd (rows df ! i)) [0..<nrows df])
    \<and> subseq (rows (drop_duplicates df)) (rows df)
    \<and> distinct (map snd (rows (drop_duplicates df)))
    \<and> set (map snd (rows (drop_duplicates df))) = set (map snd (rows df))"
proof -
  let ?P = "\<lambda>i. \<forall>j<i. snd (rows df ! j) \<noteq> snd (rows df ! i)"
  let ?K = "filter ?P [0..<nrows df]"
  have eq: "rows (drop_duplicates df) = map (\<lambda>i. rows df ! i) ?K"
    using assms by (rule drop_duplicates_rows)
  have all: "map (\<lambda>i. rows df ! i) [0..<nrows df] = rows df"
    using map_nth [of "rows df"] by (simp add: length_rows)
  have "subseq (map (\<lambda>i. rows df ! i) ?K) (map (\<lambda>i. rows df ! i) [0..<nrows df])"
    by (intro subseq_map subseq_filter_left)
  then have sub: "subseq (rows (drop_duplicates df)) (rows df)"
    by (simp only: eq all)
  have dist: "distinct (map snd (rows (drop_duplicates df)))"
  proof -
    have "inj_on (\<lambda>i. snd (rows df ! i)) (set ?K)"
    proof (rule inj_onI)
      fix i k
      assume "i \<in> set ?K" "k \<in> set ?K" "snd (rows df ! i) = snd (rows df ! k)"
      then show "i = k" by (cases i k rule: linorder_cases) auto
    qed
    then show ?thesis by (simp add: eq distinct_map o_def)
  qed
  have "set (map snd (rows df)) \<subseteq> set (map snd (rows (drop_duplicates df)))"
  proof
    fix v
    assume "v \<in> set (map snd (rows df))"
    then obtain i where i: "i < nrows df" "v = snd (rows df ! i)"
      by (auto simp add: in_set_conv_nth length_rows)
    obtain k where k: "k \<le> i" "snd (rows df ! k) = snd (rows df ! i)" "?P k"
      using first_occurrence_exists [OF i(1), of "\<lambda>i. snd (rows df ! i)"] by auto
    then have "k \<in> set ?K" using i by simp
    then have "snd (rows df ! k) \<in> (\<lambda>i. snd (rows df ! i)) ` set ?K" by (rule imageI)
    then show "v \<in> set (map snd (rows (drop_duplicates df)))"
      using i k by (simp add: eq o_def image_image)
  qed
  moreover have "set (map snd (rows (drop_duplicates df))) \<subseteq> set (map snd (rows df))"
    using nth_mem [of _ "rows df"] by (auto simp add: eq length_rows)
  ultimately have "set (map snd (rows (drop_duplicates df))) = set (map snd (rows df))"
    by (rule subset_antisym [rotated])
  then show ?thesis using eq sub dist by simp
qed

theorem drop_duplicates_keeps_first_witness:
  "columns small_churn \<noteq> []
   \<and> rows (drop_duplicates small_churn) =
       [(0, [StrV ''KS'', FloatV (2651 / 10), StrV ''False.'']),
        (1, [StrV ''OH'', FloatV (1616 / 10), StrV ''True.'']),
        (3, [StrV ''NJ'', FloatV 243, StrV ''False.''])]
   \<and> rows small_churn ! 2 = (2, [StrV ''KS'', FloatV (2651 / 10), StrV ''False.''])
   \<and> subseq (rows (drop_duplicates small_churn)) (rows small_churn)
   \<and> distinct (map snd (rows (drop_duplicates small_churn)))"
proof -
  have c: "columns small_churn \<noteq> []" by (simp add: small_churn_def)
  have r: "rows (drop_duplicates small_churn) =
       [(0, [StrV ''KS'', FloatV (2651 / 10), StrV ''False.'']),
        (1, [StrV ''OH'', FloatV (1616 / 10), StrV ''True.'']),
        (3, [StrV ''NJ'', FloatV 243, StrV ''False.''])]"
    by code_simp
  have d: "rows small_churn ! 2 = (2, [StrV ''KS'', FloatV (2651 / 10), StrV ''False.''])"
    by code_simp
  have "subseq (rows (drop_duplicates small_churn)) (rows small_churn)
      \<and> distinct (map snd (rows (drop_duplicates small_churn)))"
    using drop_duplicates_keeps_first [OF c] by blast
  then show ?thesis using c r d by blast
qed

lemma map_nth_comp: "map (\<lambda>i. f (xs ! i)) [0..<length xs] = map f xs"
  by (rule nth_equalityI) simp_all

lemma duplicated_distinct_rows:
  assumes "distinct (map (row_values df) [0..<nrows df])"
  shows "mask_positions (map Not (duplicated df)) = [0..<nrows df]"
  using distinct_no_marks [OF assms] by (simp add: duplicated_def unmarked_positions)

lemma drop_duplicates_idem: "drop_duplicates (drop_duplicates df) = drop_duplicates df"
proof (cases "empty df")
  case True
  then show ?thesis by (simp add: drop_duplicates_def)
next
  case False
  let ?rs = "map (row_values df) [0..<nrows df]"
  let ?K = "filter (\<lambda>i. ?rs ! i \<notin> set (take i ?rs)) [0..<length ?rs]"
  let ?d = "take_rows ?K df"
  have dd: "drop_duplicates df = ?d"
    using False
    by (simp add: drop_duplicates_def getitem_mask_def duplicated_def unmarked_positions)
  have "map (row_values ?d) [0..<nrows ?d] = map (\<lambda>i. row_values df (?K ! i)) [0..<length ?K]"
    by (rule map_cong) (simp_all add: nrows_take_rows row_values_take_rows)
  also have "\<dots> = map (row_values df) ?K"
    by (rule map_nth_comp)
  also have "\<dots> = map (\<lambda>i. ?rs ! i) ?K"
    by (rule map_cong) auto
  finally have "distinct (map (row_values ?d) [0..<nrows ?d])"
    using first_occurrences_distinct [of ?rs] by simp
  then have "mask_positions (map Not (duplicated ?d)) = [0..<length ?K]"
    using duplicated_distinct_rows [of ?d] by (simp add: nrows_take_rows)
  then have "getitem_mask ?d (map Not (duplicated ?d)) = ?d"
    by (simp only: getitem_mask_def take_rows_all)
  then have "drop_duplicates ?d = ?d" by (simp add: drop_duplicates_def)
  then show ?thesis by (simp only: dd)
qed

text \<open>
  C4. Removing duplicate rows is idempotent: on every table, a second
  \<open>drop_duplicates\<close> returns the table the first one returned, with the same rows and
  the same number of rows.
\<close>

theorem drop_duplicates_idempotent:
  "drop_duplicates (drop_duplicates df) = drop_duplicates df
   \<and> rows (drop_duplicates (drop_duplicates df)) = rows (drop_duplicates df)
   \<and> nrows (drop_duplicates (drop_duplicates df)) = nrows (drop_duplicates df)"
  by (simp add: drop_duplicates_idem)

subsection \<open>Indicator columns\<close>

lemma levels_distinct: "distinct (levels xs)"
  by (simp add: levels_def)

lemma set_levels: "set (levels xs) = set xs - {NaN}"
  by (auto simp add: levels_def)

lemma count_indicator:
  "distinct ls \<Longrightarrow>
     count_list (map (\<lambda>v. if x = v then IntV 1 else IntV 0) ls) (IntV 1) =
       (if x \<in> set ls then 1 else 0)"
  by (induction ls) auto

lemma indicator_values:
  "set (map (\<lambda>v. if x = v then IntV 1 else IntV 0) ls) \<subseteq> {IntV 0, IntV 1}"
  by auto

lemma dummy_row:
  "i < length (vals c) \<Longrightarrow>
     map (\<lambda>d. vals d ! i) (dummy_columns fs c) =
       map (\<lambda>v. if vals c ! i = v then IntV 1 else IntV 0) (levels (vals c))"
  by (simp add: dummy_columns_def o_def)

lemma sum_indicator:
  "distinct ls \<Longrightarrow>
     sum_list (map (\<lambda>v. case (if x = v then IntV 1 else IntV 0) of IntV k \<Rightarrow> k | _ \<Rightarrow> 0) ls) =
       (if x \<in> set ls then 1 else 0)"
  by (induction ls) auto

lemma dummy_columns_in_get_dummies:
  "c \<in> set (columns df) \<Longrightarrow> dtype c = Object \<Longrightarrow>
     set (dummy_columns fs c) \<subseteq> set (columns (get_dummies fs df))"
  by (auto simp add: get_dummies_def)

text \<open>
  C6, as the code has it. Let \<open>c\<close> be a categorical (\<open>object\<close>) column of the table and
  \<open>i\<close> a row. The indicator columns of \<open>c\<close> are columns of the encoded table; in row
  \<open>i\<close> each of them holds 0 or 1 and at most one holds 1; exactly one holds 1, and they
  sum to 1, when the row's value of \<open>c\<close> is not missing; when it is missing they are
  all 0.
\<close>

theorem one_hot_exclusive:
  assumes "c \<in> set (columns df)" and "dtype c = Object" and "i < length (vals c)"
  shows "set (dummy_columns fs c) \<subseteq> set (columns (get_dummies fs df))
    \<and> set (map (\<lambda>d. vals d ! i) (dummy_columns fs c)) \<subseteq> {IntV 0, IntV 1}
    \<and> count_list (map (\<lambda>d. vals d ! i) (dummy_columns fs c)) (IntV 1) \<le> 1
    \<and> count_list (map (\<lambda>d. vals d ! i) (dummy_columns fs c)) (IntV 1) =
        (if vals c ! i = NaN then 0 else 1)
    \<and> sum_list (map (\<lambda>d. case vals d ! i of IntV k \<Rightarrow> k | _ \<Rightarrow> 0) (dummy_columns fs c)) =
        (if vals c ! i = NaN then 0 else 1)"
proof -
  have mem: "(vals c ! i \<in> set (levels (vals c))) = (vals c ! i \<noteq> NaN)"
    using assms(3) by (auto simp add: set_levels)
  have row: "map (\<lambda>d. vals d ! i) (dummy_columns fs c) =
      map (\<lambda>v. if vals c ! i = v then IntV 1 else IntV 0) (levels (vals c))"
    using assms(3) by (rule dummy_row)
  have cnt: "count_list (map (\<lambda>d. vals d ! i) (dummy_columns fs c)) (IntV 1) =
      (if vals c ! i = NaN then 0 else 1)"
    unfolding row using count_indicator [OF levels_distinct, of "vals c ! i" "vals c"] mem
    by simp
  have "map (\<lambda>d. case vals d ! i of IntV k \<Rightarrow> k | _ \<Rightarrow> 0) (dummy_columns fs c) =
      map (\<lambda>v. case (if vals c ! i = v then IntV 1 else IntV 0) of IntV k \<Rightarrow> k | _ \<Rightarrow> 0)
        (levels (vals c))"
    using assms(3) by (simp add: dummy_columns_def o_def)
  then have sm: "sum_list (map (\<lambda>d. case vals d ! i of IntV k \<Rightarrow> k | _ \<Rightarrow> 0)
      (dummy_columns fs c)) = (if vals c ! i = NaN then 0 else 1)"
    using sum_indicator [OF levels_distinct, of "vals c ! i" "vals c"] mem by simp
  have bin: "set (map (\<lambda>d. vals d ! i) (dummy_columns fs c)) \<subseteq> {IntV 0, IntV 1}"
    unfolding row by (rule indicator_values)
  have le: "count_list (map (\<lambda>d. vals d ! i) (dummy_columns fs c)) (IntV 1) \<le> 1"
    using cnt by simp
  show ?thesis
    using dummy_columns_in_get_dummies [OF assms(1) assms(2), of fs] bin le cnt sm by blast
qed

theorem one_hot_exclusive_witness:
  "columns small_churn ! 0 \<in> set (columns small_churn)
   \<and> dtype (columns small_churn ! 0) = Object
   \<and> (1::nat) < length (vals (columns small_churn ! 0))
   \<and> map name (dummy_columns float_str0 (columns small_churn ! 0)) =
       [''State_KS'', ''State_NJ'', ''State_OH'']
   \<and> map (\<lambda>d. vals d ! 1) (dummy_columns float_str0 (columns small_churn ! 0)) =
       [IntV 0, IntV 0, IntV 1]
   \<and> count_list (map (\<lambda>d. vals d ! 1) (dummy_columns float_str0 (columns small_churn ! 0)))
       (IntV 1) = 1"
proof -
  have a: "columns small_churn ! 0 \<in> set (columns small_churn)"
    and b: "dtype (columns small_churn ! 0) = Object"
    and c: "(1::nat) < length (vals (columns small_churn ! 0))"
    and n: "vals (columns small_churn ! 0) ! 1 \<noteq> NaN"
    by (simp_all add: small_churn_def)
  have d: "map name (dummy_columns float_str0 (columns small_churn ! 0)) =
       [''State_KS'', ''State_NJ'', ''State_OH'']
     \<and> map (\<lambda>d. vals d ! 1) (dummy_columns float_str0 (columns small_churn ! 0)) =
       [IntV 0, IntV 0, IntV 1]"
    by code_simp
  have "count_list (map (\<lambda>d. vals d ! 1) (dummy_columns float_str0 (columns small_churn ! 0)))
       (IntV 1) = 1"
    using one_hot_exclusive [OF a b c, of float_str0] n by simp
  then show ?thesis using a b c d by blast
qed

text \<open>
  In \<open>churn_missing_state\<close> the second row has no state. The field \<open>State\<close> has the
  one indicator \<open>State_KS\<close>, which is 0 in that row: the indicators of the field sum to
  0 there.
\<close>

theorem one_hot_missing_counterexample:
  "dtype (columns churn_missing_state ! 0) = Object
   \<and> vals (columns churn_missing_state ! 0) ! 1 = NaN
   \<and> colnames (get_dummies float_str0 churn_missing_state) =
       [''State_KS'', ''Churn?_False.'', ''Churn?_True.'']
   \<and> row_values (get_dummies float_str0 churn_missing_state) 1 = [IntV 0, IntV 0, IntV 1]"
  by code_simp

subsection \<open>The cut points of the split\<close>

lemma excess_bits_upper: "p < 2 ^ (excess_bits p + 53)"
proof (induction p rule: excess_bits.induct)
  case (1 p)
  show ?case
  proof (cases "p < 2 ^ 53")
    case True
    then show ?thesis by (simp add: excess_bits.simps [of p])
  next
    case False
    then have "p div 2 < 2 ^ (excess_bits (p div 2) + 53)" using 1 by simp
    then have h: "p < 2 * 2 ^ (excess_bits (p div 2) + 53)" by linarith
    have eb: "excess_bits p = Suc (excess_bits (p div 2))"
      using False by (simp add: excess_bits.simps [of p])
    have pw: "(2::nat) ^ (Suc k + 53) = 2 * 2 ^ (k + 53)" for k by (simp only: add_Suc power_Suc)
    show ?thesis unfolding eb pw by (rule h)
  qed
qed

lemma excess_bits_lower: "0 < excess_bits p \<Longrightarrow> 2 ^ (excess_bits p + 52) \<le> p"
proof (induction p rule: excess_bits.induct)
  case (1 p)
  show ?case
  proof (cases "p < 2 ^ 53")
    case True
    then show ?thesis using 1(2) by (simp add: excess_bits.simps [of p])
  next
    case False
    show ?thesis
    proof (cases "0 < excess_bits (p div 2)")
      case True
      then have "2 ^ (excess_bits (p div 2) + 52) \<le> p div 2" using 1(1) False by simp
      then have h: "2 * 2 ^ (excess_bits (p div 2) + 52) \<le> p" by linarith
      have eb: "excess_bits p = Suc (excess_bits (p div 2))"
        using False by (simp add: excess_bits.simps [of p])
      have pw: "(2::nat) ^ (Suc k + 52) = 2 * 2 ^ (k + 52)" for k by (simp only: add_Suc power_Suc)
      show ?thesis unfolding eb pw by (rule h)
    next
      case z: False
      then show ?thesis using False by (simp add: excess_bits.simps [of p])
    qed
  qed
qed

lemma excess_bits_mono: "p \<le> q \<Longrightarrow> excess_bits p \<le> excess_bits q"
proof (induction p arbitrary: q rule: excess_bits.induct)
  case (1 p)
  show ?case
  proof (cases "p < 2 ^ 53")
    case True
    then show ?thesis by (simp add: excess_bits.simps [of p])
  next
    case False
    then have q: "\<not> q < 2 ^ 53" using 1(2) by simp
    have "p div 2 \<le> q div 2" using 1(2) by (rule div_le_mono)
    then have "excess_bits (p div 2) \<le> excess_bits (q div 2)" using 1(1) False by simp
    then show ?thesis using False q by (simp add: excess_bits.simps [of p] excess_bits.simps [of q])
  qed
qed

lemma round_to_lower: "(p div 2 ^ e) * 2 ^ e \<le> round_to e p"
  by (simp add: round_to_def Let_def)

lemma round_to_upper: "round_to e p \<le> (p div 2 ^ e + 1) * 2 ^ e"
  by (simp add: round_to_def Let_def)

lemma round_to_error: "2 * round_to e p \<le> 2 * p + 2 ^ e"
proof -
  define q r where "q = p div 2 ^ e" and "r = p mod 2 ^ e"
  have p: "p = q * 2 ^ e + r" by (simp only: q_def r_def div_mult_mod_eq)
  have "2 * ((if 2 * r < 2 ^ e then q else if 2 ^ e < 2 * r then q + 1
      else if even q then q else q + 1) * 2 ^ e) \<le> 2 * (q * 2 ^ e + r) + 2 ^ e"
    by (auto simp add: algebra_simps)
  then show ?thesis
    unfolding round_to_def Let_def q_def [symmetric] r_def [symmetric] p [symmetric] .
qed

lemma round_to_mono: "p1 \<le> p2 \<Longrightarrow> round_to e p1 \<le> round_to e p2"
proof -
  assume le: "p1 \<le> p2"
  have q: "p1 div 2 ^ e \<le> p2 div 2 ^ e" using le by (rule div_le_mono)
  show ?thesis
  proof (cases "p1 div 2 ^ e = p2 div 2 ^ e")
    case True
    have "p1 mod 2 ^ e \<le> p2 mod 2 ^ e"
      using le True by (metis add_le_cancel_left div_mult_mod_eq)
    then show ?thesis using True by (auto simp add: round_to_def Let_def)
  next
    case False
    then have "p1 div 2 ^ e + 1 \<le> p2 div 2 ^ e" using q by simp
    then have "(p1 div 2 ^ e + 1) * 2 ^ e \<le> (p2 div 2 ^ e) * 2 ^ e" by (rule mult_le_mono1)
    then show ?thesis using round_to_upper [of e p1] round_to_lower [of p2 e] by linarith
  qed
qed


lemma round_binary64_mono: "p1 \<le> p2 \<Longrightarrow> round_binary64 p1 \<le> round_binary64 p2"
proof -
  assume le: "p1 \<le> p2"
  define e1 e2 where "e1 = excess_bits p1" and "e2 = excess_bits p2"
  define K :: nat where "K = 2 ^ 52"
  have K53: "(2::nat) ^ (e + 53) = 2 ^ e * (2 * K)" and K52: "(2::nat) ^ (e + 52) = 2 ^ e * K" for e
    by (simp_all only: K_def power_add power_Suc [symmetric]) simp_all
  have e: "e1 \<le> e2" unfolding e1_def e2_def using le by (rule excess_bits_mono)
  show ?thesis
  proof (cases "e1 = e2")
    case True
    then show ?thesis
      using round_to_mono [OF le, of e1] by (simp add: round_binary64_def e1_def e2_def)
  next
    case False
    then have lt: "Suc e1 \<le> e2" using e by simp
    have "p1 < 2 ^ (e1 + 53)" unfolding e1_def by (rule excess_bits_upper)
    then have "p1 < (2 * K) * 2 ^ e1" by (simp only: K53 mult.commute)
    then have "p1 div 2 ^ e1 < 2 * K" by (rule less_mult_imp_div_less)
    then have "p1 div 2 ^ e1 + 1 \<le> 2 * K" by simp
    then have "(p1 div 2 ^ e1 + 1) * 2 ^ e1 \<le> (2 * K) * 2 ^ e1" by (rule mult_le_mono1)
    with round_to_upper [of e1 p1] have a: "round_to e1 p1 \<le> (2 * K) * 2 ^ e1"
      by (rule order_trans)
    have "0 < e2" using lt by simp
    then have "2 ^ (e2 + 52) \<le> p2" unfolding e2_def by (rule excess_bits_lower)
    then have "K * 2 ^ e2 \<le> p2" by (simp only: K52 mult.commute)
    then have "K * 2 ^ e2 div 2 ^ e2 \<le> p2 div 2 ^ e2" by (rule div_le_mono)
    then have "K \<le> p2 div 2 ^ e2" by simp
    then have "K * 2 ^ e2 \<le> (p2 div 2 ^ e2) * 2 ^ e2" by (rule mult_le_mono1)
    then have b: "K * 2 ^ e2 \<le> round_to e2 p2"
      using round_to_lower [of p2 e2] by (rule order_trans)
    have "(2::nat) ^ Suc e1 \<le> 2 ^ e2" using lt by (intro power_increasing) simp_all
    then have "K * 2 ^ Suc e1 \<le> K * 2 ^ e2" by (rule mult_le_mono2)
    then have "(2 * K) * 2 ^ e1 \<le> K * 2 ^ e2" by (simp add: mult_ac)
    with a have "round_to e1 p1 \<le> K * 2 ^ e2" by (rule order_trans)
    then have "round_to e1 p1 \<le> round_to e2 p2" using b by (rule order_trans)
    then show ?thesis by (simp only: round_binary64_def e1_def e2_def)
  qed
qed

lemma round_binary64_error: "round_binary64 p * 2 ^ 53 \<le> p * (2 ^ 53 + 1)"
proof -
  define e where "e = excess_bits p"
  define K :: nat where "K = 2 ^ 52"
  have K53: "(2::nat) ^ 53 = 2 * K" by (simp add: K_def)
  have K52: "(2::nat) ^ (e + 52) = 2 ^ e * K" by (simp only: K_def power_add)
  have "round_to e p * (2 * K) \<le> p * (2 * K + 1)"
  proof (cases "e = 0")
    case True
    then show ?thesis by (simp add: round_to_def)
  next
    case False
    then have "2 ^ (e + 52) \<le> p" unfolding e_def by (intro excess_bits_lower) simp
    then have lo: "2 ^ e * K \<le> p" by (simp only: K52)
    have "2 * round_to e p * K \<le> (2 * p + 2 ^ e) * K"
      using round_to_error [of e p] by (rule mult_le_mono1)
    then have "round_to e p * (2 * K) \<le> p * (2 * K) + 2 ^ e * K"
      by (simp add: algebra_simps)
    then have "round_to e p * (2 * K) \<le> p * (2 * K) + p" using lo by linarith
    then show ?thesis by (simp add: algebra_simps)
  qed
  then show ?thesis by (simp only: round_binary64_def e_def K53)
qed

lemma int_of_product_mono: "c1 \<le> c2 \<Longrightarrow> int_of_product c1 n \<le> int_of_product c2 n"
  unfolding int_of_product_def
  by (intro div_le_mono round_binary64_mono mult_le_mono1)

lemma int_of_product_le:
  assumes c: "c * (2 ^ 53 + 1) ^ 2 \<le> (2 ^ 53) ^ 3"
  shows "int_of_product c n \<le> n"
proof -
  define N R where "N = round_binary64 n" and "R = round_binary64 (c * N)"
  define M :: nat where "M = 2 ^ 53"
  have M: "0 < M" by (simp add: M_def)
  have c': "c * (M + 1) ^ 2 \<le> M ^ 3" using c by (simp only: M_def)
  have N: "N * M \<le> n * (M + 1)" unfolding N_def M_def by (rule round_binary64_error)
  have R: "R * M \<le> c * N * (M + 1)" unfolding R_def M_def by (rule round_binary64_error)
  have "R * M * M \<le> c * N * (M + 1) * M" using R by (rule mult_le_mono1)
  also have "\<dots> = c * (M + 1) * (N * M)" by (simp add: algebra_simps)
  also have "\<dots> \<le> c * (M + 1) * (n * (M + 1))" using N by (rule mult_le_mono2)
  also have "\<dots> = c * (M + 1) ^ 2 * n" by (simp add: power2_eq_square algebra_simps)
  also have "\<dots> \<le> M ^ 3 * n" using c' by (rule mult_le_mono1)
  also have "\<dots> = (n * M) * (M * M)" by (simp add: power3_eq_cube algebra_simps)
  finally have "R * (M * M) \<le> (n * M) * (M * M)" by (simp add: mult.assoc)
  then have "R \<le> n * M" using M by simp
  then have "R div M \<le> n * M div M" by (rule div_le_mono)
  then have "R div M \<le> n" using M by simp
  then show ?thesis by (simp only: int_of_product_def N_def R_def M_def)
qed

lemma cut_points: "int_of_product c07 n \<le> int_of_product c09 n \<and> int_of_product c09 n \<le> n"
proof
  show "int_of_product c07 n \<le> int_of_product c09 n"
    by (rule int_of_product_mono) (simp add: c07_def c09_def)
  show "int_of_product c09 n \<le> n"
    by (rule int_of_product_le) (simp add: c09_def)
qed

subsection \<open>Slices of a shuffled frame\<close>

lemma nrows_slice_rows: "nrows (slice_rows st en df) = min (nrows df - st) (en - st)"
  by (simp add: nrows_def slice_rows_def min.commute)

lemma rows_slice_rows:
  assumes "list_all (\<lambda>c. length (vals c) = nrows df) (columns df)"
  shows "rows (slice_rows st en df) = take (en - st) (drop st (rows df))"
proof (rule nth_equalityI)
  show "length (rows (slice_rows st en df)) = length (take (en - st) (drop st (rows df)))"
    by (simp add: length_rows nrows_slice_rows min.commute)
next
  fix i
  assume "i < length (rows (slice_rows st en df))"
  then have i: "i < en - st" "st + i < nrows df"
    by (auto simp add: length_rows nrows_slice_rows)
  have v: "take (en - st) (drop st (vals c)) ! i = vals c ! (st + i)" if "c \<in> set (columns df)" for c
    using that assms i by (simp add: list_all_iff)
  have "row_values (slice_rows st en df) i = row_values df (st + i)"
    using v by (simp add: row_values_def slice_rows_def o_def)
  moreover have "index (slice_rows st en df) ! i = index df ! (st + i)"
    using i by (simp add: slice_rows_def nrows_def)
  ultimately show "rows (slice_rows st en df) ! i = take (en - st) (drop st (rows df)) ! i"
    using i by (simp add: rows_nth nrows_slice_rows length_rows)
qed

lemma take_rows_columns_ok:
  "list_all (\<lambda>c. length (vals c) = nrows (take_rows locs df)) (columns (take_rows locs df))"
  by (simp add: list_all_iff take_rows_def nrows_def)

lemma three_slices:
  "i1 \<le> i2 \<Longrightarrow> i2 \<le> length xs \<Longrightarrow>
     take (i1 - 0) (drop 0 xs) @ take (i2 - i1) (drop i1 xs) @ take (length xs - i2) (drop i2 xs) = xs"
proof -
  assume a: "i1 \<le> i2" "i2 \<le> length xs"
  have "take (i2 - i1) (drop i1 xs) @ drop i2 xs = drop i1 xs"
    using a by (metis append_take_drop_id drop_drop le_add_diff_inverse2)
  then show ?thesis by simp
qed

lemma rows_permuted:
  assumes "mset locs = mset [0..<nrows df]"
  shows "mset (rows (take_rows locs df)) = mset (rows df)"
proof -
  have "mset (rows (take_rows locs df)) = image_mset (\<lambda>i. (index df ! i, row_values df i)) (mset locs)"
    by (simp add: rows_take_rows)
  also have "\<dots> = mset (rows df)" by (simp add: assms rows_def)
  finally show ?thesis .
qed

lemma index_permuted:
  assumes "mset locs = mset [0..<nrows df]" and "distinct (index df)"
  shows "distinct (index (take_rows locs df))"
proof -
  have d: "distinct locs" using assms(1) by (metis distinct_upt mset_eq_imp_distinct_iff)
  have s: "set locs = {0..<nrows df}" using assms(1) by (metis mset_eq_setD set_upt)
  have "inj_on (\<lambda>i. index df ! i) (set locs)"
    using assms(2) s by (auto simp add: inj_on_def nrows_def nth_eq_iff_index_eq)
  then show ?thesis using d by (simp add: take_rows_def distinct_map)
qed

lemma index_is_fst_rows:
  "list_all (\<lambda>c. length (vals c) = nrows df) (columns df) \<Longrightarrow> map fst (rows df) = index df"
  by (rule nth_equalityI) (simp_all add: rows_def nrows_def)

lemma three_parts_disjoint:
  assumes "distinct xs" and "i1 \<le> i2" and "i2 \<le> length xs"
  shows "set (take (i1 - 0) (drop 0 xs)) \<inter> set (take (i2 - i1) (drop i1 xs)) = {}
    \<and> set (take (i1 - 0) (drop 0 xs)) \<inter> set (take (length xs - i2) (drop i2 xs)) = {}
    \<and> set (take (i2 - i1) (drop i1 xs)) \<inter> set (take (length xs - i2) (drop i2 xs)) = {}"
proof -
  have "distinct (take (i1 - 0) (drop 0 xs) @ take (i2 - i1) (drop i1 xs)
      @ take (length xs - i2) (drop i2 xs))"
    using assms by (simp only: three_slices)
  then show ?thesis by (simp only: distinct_append set_append) blast
qed

text \<open>
  C1. Let \<open>n\<close> be the number of rows of \<open>model_data\<close>, with no index label used twice
  (\<open>read_csv\<close> numbers the rows), and let \<open>locs\<close> be the permutation of the row
  positions that the seeded generator draws. Then cell 34 returns three frames with
  \<open>int(0.7 * n)\<close>, \<open>int(0.9 * n) - int(0.7 * n)\<close> and \<open>n - int(0.9 * n)\<close> rows, where
  \<open>int(0.7 * n) \<le> int(0.9 * n) \<le> n\<close>; the sizes add up to \<open>n\<close>; no record and no index
  label is in two of the frames; and the records of the three frames together are the
  records of \<open>model_data\<close>, each as often as there.
\<close>

theorem split_partitions:
  assumes "distinct (index model_data)"
    and "mset locs = mset [0..<nrows model_data]"
    and "cell34 locs model_data = (train_data, validation_data, test_data)"
  shows "nrows train_data = int_of_product c07 (nrows model_data)
    \<and> nrows validation_data =
        int_of_product c09 (nrows model_data) - int_of_product c07 (nrows model_data)
    \<and> nrows test_data = nrows model_data - int_of_product c09 (nrows model_data)
    \<and> int_of_product c07 (nrows model_data) \<le> int_of_product c09 (nrows model_data)
    \<and> int_of_product c09 (nrows model_data) \<le> nrows model_data
    \<and> nrows train_data + nrows validation_data + nrows test_data = nrows model_data
    \<and> set (rows train_data) \<inter> set (rows validation_data) = {}
    \<and> set (rows train_data) \<inter> set (rows test_data) = {}
    \<and> set (rows validation_data) \<inter> set (rows test_data) = {}
    \<and> set (index train_data) \<inter> set (index validation_data) = {}
    \<and> set (index train_data) \<inter> set (index test_data) = {}
    \<and> set (index validation_data) \<inter> set (index test_data) = {}
    \<and> mset (rows train_data) + mset (rows validation_data) + mset (rows test_data) =
        mset (rows model_data)"
proof -
  define n where "n = nrows model_data"
  define i1 i2 where "i1 = int_of_product c07 n" and "i2 = int_of_product c09 n"
  define s where "s = sample locs model_data"
  have le: "i1 \<le> i2" "i2 \<le> n" using cut_points [of n] by (simp_all add: i1_def i2_def)
  have "size (mset locs) = size (mset [0..<n])" using assms(2) by (simp only: n_def)
  then have len: "length locs = n" by simp
  have ns: "nrows s = n" by (simp add: s_def sample_def nrows_take_rows len)
  have ok: "list_all (\<lambda>c. length (vals c) = nrows s) (columns s)"
    unfolding s_def sample_def by (rule take_rows_columns_ok)
  have tr: "train_data = slice_rows 0 i1 s" and va: "validation_data = slice_rows i1 i2 s"
    and te: "test_data = slice_rows i2 n s"
    using assms(3) by (simp_all add: cell34_def np_split_def i1_def i2_def s_def n_def ns [unfolded s_def n_def])
  have rt: "rows train_data = take (i1 - 0) (drop 0 (rows s))"
    and rv: "rows validation_data = take (i2 - i1) (drop i1 (rows s))"
    and re: "rows test_data = take (length (rows s) - i2) (drop i2 (rows s))"
    by (simp_all only: tr va te rows_slice_rows [OF ok] length_rows ns)
  have it: "index train_data = take (i1 - 0) (drop 0 (index s))"
    and iv: "index validation_data = take (i2 - i1) (drop i1 (index s))"
    and ie: "index test_data = take (length (index s) - i2) (drop i2 (index s))"
    using ns by (simp_all add: tr va te slice_rows_def nrows_def)
  have di: "distinct (index s)"
    unfolding s_def sample_def using assms(2) assms(1) by (rule index_permuted)
  then have dr: "distinct (rows s)"
    using index_is_fst_rows [OF ok] by (metis distinct_map)
  have li: "i2 \<le> length (index s)" and lr: "i2 \<le> length (rows s)"
    using le ns by (simp_all add: nrows_def length_rows)
  have sizes: "nrows train_data = i1 \<and> nrows validation_data = i2 - i1 \<and> nrows test_data = n - i2"
    using le ns by (simp add: tr va te nrows_slice_rows)
  have cat: "rows train_data @ rows validation_data @ rows test_data = rows s"
    unfolding rt rv re using le(1) lr by (rule three_slices)
  have "mset (rows train_data) + mset (rows validation_data) + mset (rows test_data) =
      mset (rows train_data @ rows validation_data @ rows test_data)"
    by (simp add: ac_simps)
  also have "\<dots> = mset (rows model_data)"
    unfolding cat s_def sample_def using assms(2) by (rule rows_permuted)
  finally have all: "mset (rows train_data) + mset (rows validation_data) + mset (rows test_data) =
      mset (rows model_data)" .
  have drs: "set (rows train_data) \<inter> set (rows validation_data) = {}
      \<and> set (rows train_data) \<inter> set (rows test_data) = {}
      \<and> set (rows validation_data) \<inter> set (rows test_data) = {}"
    unfolding rt rv re using dr le(1) lr by (rule three_parts_disjoint)
  have dis: "set (index train_data) \<inter> set (index validation_data) = {}
      \<and> set (index train_data) \<inter> set (index test_data) = {}
      \<and> set (index validation_data) \<inter> set (index test_data) = {}"
    unfolding it iv ie using di le(1) li by (rule three_parts_disjoint)
  have sum: "nrows train_data + nrows validation_data + nrows test_data = n"
    using sizes le by simp
  show ?thesis
    using sizes le sum drs dis all unfolding i1_def i2_def n_def by blast
qed


theorem split_partitions_witness:
  "distinct (index small_churn) \<and> mset [2, 0, 3, 1] = mset [0..<nrows small_churn]
   \<and> index (fst (cell34 [2, 0, 3, 1] small_churn)) = [2, 0]
   \<and> index (fst (snd (cell34 [2, 0, 3, 1] small_churn))) = [3]
   \<and> index (snd (snd (cell34 [2, 0, 3, 1] small_churn))) = [1]
   \<and> nrows (fst (cell34 [2, 0, 3, 1] small_churn)) = 2
   \<and> nrows (fst (snd (cell34 [2, 0, 3, 1] small_churn))) = 1
   \<and> nrows (snd (snd (cell34 [2, 0, 3, 1] small_churn))) = 1
   \<and> set (rows (fst (cell34 [2, 0, 3, 1] small_churn)))
       \<inter> set (rows (snd (snd (cell34 [2, 0, 3, 1] small_churn)))) = {}"
proof -
  have n: "nrows small_churn = 4" by (simp add: nrows_def small_churn_def)
  have d: "distinct (index small_churn)" by (simp add: small_churn_def)
  have p: "mset [2, 0, 3, 1] = mset [0..<nrows small_churn]"
    unfolding n by code_simp
  have i1: "int_of_product c07 4 = 2"
    by (simp add: int_of_product_def round_binary64_def round_to_def excess_bits.simps
        c07_def Let_def)
  have i2: "int_of_product c09 4 = 3"
    by (simp add: int_of_product_def round_binary64_def round_to_def excess_bits.simps
        c09_def Let_def)
  have ix: "index (fst (cell34 [2, 0, 3, 1] small_churn)) = [2, 0]
      \<and> index (fst (snd (cell34 [2, 0, 3, 1] small_churn))) = [3]
      \<and> index (snd (snd (cell34 [2, 0, 3, 1] small_churn))) = [1]"
    by (simp add: cell34_def np_split_def n i1 i2 sample_def nrows_take_rows)
      (simp add: take_rows_def slice_rows_def small_churn_def)
  have c: "cell34 [2, 0, 3, 1] small_churn =
      (fst (cell34 [2, 0, 3, 1] small_churn), fst (snd (cell34 [2, 0, 3, 1] small_churn)),
       snd (snd (cell34 [2, 0, 3, 1] small_churn)))"
    by simp
  have "nrows (fst (cell34 [2, 0, 3, 1] small_churn)) = 2
      \<and> nrows (fst (snd (cell34 [2, 0, 3, 1] small_churn))) = 1
      \<and> nrows (snd (snd (cell34 [2, 0, 3, 1] small_churn))) = 1
      \<and> set (rows (fst (cell34 [2, 0, 3, 1] small_churn)))
       \<inter> set (rows (snd (snd (cell34 [2, 0, 3, 1] small_churn)))) = {}"
    using split_partitions [OF d p c] by (simp add: n i1 i2)
  then show ?thesis using d p ix by blast
qed

subsection \<open>The target column of the model dataset\<close>

lemma filter_unique:
  "distinct (map f xs) \<Longrightarrow> x \<in> set xs \<Longrightarrow> filter (\<lambda>y. f y = f x) xs = [x]"
proof (induction xs)
  case Nil
  then show ?case by simp
next
  case (Cons a xs)
  show ?case
  proof (cases "x = a")
    case True
    have "f a \<notin> f ` set xs" using Cons.prems(1) by simp
    then have "filter (\<lambda>y. f y = f a) xs = []"
      by (simp add: filter_empty_conv) (metis imageI)
    then show ?thesis using True by simp
  next
    case False
    then have "x \<in> set xs" using Cons.prems(2) by simp
    have "f a \<notin> f ` set xs" using Cons.prems(1) by simp
    then have "f x \<noteq> f a" using \<open>x \<in> set xs\<close> by (metis imageI)
    then show ?thesis using Cons \<open>x \<in> set xs\<close> by auto
  qed
qed

lemma target_dummy:
  assumes "c \<in> set (columns churn)" and "name c = ''Churn?''" and "dtype c = Object"
    and "StrV s \<in> set (vals c)"
  shows "\<lparr>name = ''Churn?_'' @ s, dtype = UInt8,
      vals = map (\<lambda>x. if x = StrV s then IntV 1 else IntV 0) (vals c)\<rparr>
    \<in> set (columns (get_dummies fs churn))"
proof -
  have "StrV s \<in> set (levels (vals c))" using assms(4) by (simp add: set_levels)
  then have "\<lparr>name = name c @ ''_'' @ py_str fs (StrV s), dtype = UInt8,
      vals = map (\<lambda>x. if x = StrV s then IntV 1 else IntV 0) (vals c)\<rparr>
    \<in> set (dummy_columns fs c)"
    unfolding dummy_columns_def set_map by (rule imageI)
  then show ?thesis
    using dummy_columns_in_get_dummies [OF assms(1) assms(3), of fs] assms(2)
    by (auto simp add: py_str_def)
qed

lemma cell32_result:
  assumes "c \<in> set (columns churn)" and "name c = ''Churn?''" and "dtype c = Object"
    and "StrV ''True.'' \<in> set (vals c)" and "StrV ''False.'' \<in> set (vals c)"
    and "distinct (colnames (get_dummies fs churn))"
  shows "cell32 fs churn =
    Inr \<lparr>index = index churn,
         columns =
           \<lparr>name = ''Churn?_True.'', dtype = UInt8,
             vals = map (\<lambda>x. if x = StrV ''True.'' then IntV 1 else IntV 0) (vals c)\<rparr>
           # filter (\<lambda>d. name d \<notin> set [''Churn?_False.'', ''Churn?_True.''])
               (columns (get_dummies fs churn))\<rparr>"
proof -
  let ?g = "get_dummies fs churn"
  let ?t = "\<lparr>name = ''Churn?_True.'', dtype = UInt8,
             vals = map (\<lambda>x. if x = StrV ''True.'' then IntV 1 else IntV 0) (vals c)\<rparr>"
  let ?f = "\<lparr>name = ''Churn?_False.'', dtype = UInt8,
             vals = map (\<lambda>x. if x = StrV ''False.'' then IntV 1 else IntV 0) (vals c)\<rparr>"
  have t: "?t \<in> set (columns ?g)"
    using target_dummy [OF assms(1-3) assms(4), of fs] by simp
  have f: "?f \<in> set (columns ?g)"
    using target_dummy [OF assms(1-3) assms(5), of fs] by simp
  have "filter (\<lambda>y. name y = name ?t) (columns ?g) = [?t]"
    using assms(6) t unfolding colnames_def by (rule filter_unique)
  then have sel: "filter (\<lambda>y. name y = ''Churn?_True.'') (columns ?g) = [?t]" by simp
  have gi: "getitem ''Churn?_True.'' ?g = Inr (?g\<lparr>columns := [?t]\<rparr>)"
    by (simp add: getitem_def sel)
  have "''Churn?_True.'' \<in> set (colnames ?g)" "''Churn?_False.'' \<in> set (colnames ?g)"
    using t f unfolding colnames_def set_map by force+
  then have dr: "drop_columns [''Churn?_False.'', ''Churn?_True.''] ?g =
      Inr (?g\<lparr>columns := filter (\<lambda>d. name d \<notin> set [''Churn?_False.'', ''Churn?_True.''])
        (columns ?g)\<rparr>)"
    by (simp add: drop_columns_def)
  have ix: "index ?g = index churn" by (simp add: get_dummies_def)
  show ?thesis
    unfolding cell32_def Let_def gi dr by (simp add: concat_columns_def ix)
qed

lemma cell32_key_error:
  assumes "''Churn?_True.'' \<notin> set (colnames (get_dummies fs churn))"
  shows "cell32 fs churn = Inl (KeyError ''Churn?_True.'')"
proof -
  have "filter (\<lambda>c. name c = ''Churn?_True.'') (columns (get_dummies fs churn)) = []"
    using assms unfolding colnames_def set_map filter_empty_conv by (metis imageI)
  then show ?thesis by (simp add: cell32_def getitem_def)
qed

lemma colnames_slice_rows: "colnames (slice_rows st en df) = colnames df"
  by (simp add: colnames_def slice_rows_def o_def)

lemma colnames_take_rows: "colnames (take_rows locs df) = colnames df"
  by (simp add: colnames_def take_rows_def o_def)

lemma colnames_cell34:
  "cell34 locs df = (train_data, validation_data, test_data) \<Longrightarrow>
     colnames train_data = colnames df \<and> colnames validation_data = colnames df
     \<and> colnames test_data = colnames df"
  by (auto simp add: cell34_def np_split_def sample_def colnames_slice_rows
      colnames_take_rows)

lemma colnames_cell58: "colnames (cell58 df) = tl (colnames df)"
  by (simp add: cell58_def iloc_columns_from_def colnames_def drop_Suc map_tl)

lemma to_csv_cell58: "to_csv (cell58 df) = map tl (to_csv df)"
  by (simp add: to_csv_def cell58_def iloc_columns_from_def row_values_def nrows_def
      drop_Suc map_tl)

text \<open>
  C10. Let the table have a column \<open>Churn?\<close> of dtype \<open>object\<close> in which both
  \<open>True.\<close> and \<open>False.\<close> occur, and let the encoded table have no two columns of the
  same name. Then the encoding has the columns \<open>Churn?_True.\<close> and \<open>Churn?_False.\<close>,
  and cell 32 returns a model dataset whose first column is \<open>Churn?_True.\<close>, holding 1
  in the rows of the customers who churned and 0 in the others; the other columns are
  the encoded columns except the two target indicators, in their order. So
  \<open>Churn?_True.\<close> occurs exactly once and \<open>Churn?_False.\<close> does not occur.
\<close>

theorem target_first_column:
  assumes "c \<in> set (columns churn)" and "name c = ''Churn?''" and "dtype c = Object"
    and "StrV ''True.'' \<in> set (vals c)" and "StrV ''False.'' \<in> set (vals c)"
    and "distinct (colnames (get_dummies fs churn))"
  shows "\<exists>model_data. cell32 fs churn = Inr model_data
    \<and> ''Churn?_True.'' \<in> set (colnames (get_dummies fs churn))
    \<and> ''Churn?_False.'' \<in> set (colnames (get_dummies fs churn))
    \<and> columns model_data ! 0 =
        \<lparr>name = ''Churn?_True.'', dtype = UInt8,
          vals = map (\<lambda>x. if x = StrV ''True.'' then IntV 1 else IntV 0) (vals c)\<rparr>
    \<and> tl (columns model_data) =
        filter (\<lambda>d. name d \<notin> set [''Churn?_False.'', ''Churn?_True.''])
          (columns (get_dummies fs churn))
    \<and> count_list (colnames model_data) ''Churn?_True.'' = 1
    \<and> ''Churn?_False.'' \<notin> set (colnames model_data)
    \<and> index model_data = index churn"
proof -
  let ?g = "get_dummies fs churn"
  let ?rest = "filter (\<lambda>d. name d \<notin> set [''Churn?_False.'', ''Churn?_True.'']) (columns ?g)"
  let ?t = "\<lparr>name = ''Churn?_True.'', dtype = UInt8,
             vals = map (\<lambda>x. if x = StrV ''True.'' then IntV 1 else IntV 0) (vals c)\<rparr>"
  let ?m = "\<lparr>index = index churn, columns = ?t # ?rest\<rparr>"
  have r: "cell32 fs churn = Inr ?m" using assms by (rule cell32_result)
  have t: "''Churn?_'' @ ''True.'' \<in> set (colnames ?g)"
    using target_dummy [OF assms(1-3) assms(4), of fs] unfolding colnames_def set_map by force
  have f: "''Churn?_'' @ ''False.'' \<in> set (colnames ?g)"
    using target_dummy [OF assms(1-3) assms(5), of fs] unfolding colnames_def set_map by force
  have n: "''Churn?_True.'' \<notin> set (map name ?rest)" "''Churn?_False.'' \<notin> set (map name ?rest)"
    by auto
  then have "count_list (map name ?rest) ''Churn?_True.'' = 0"
    by (simp only: count_list_0_iff not_False_eq_True)
  then have cnt: "count_list (colnames ?m) ''Churn?_True.'' = 1" by (simp add: colnames_def)
  have nf: "''Churn?_False.'' \<notin> set (colnames ?m)" using n(2) by (simp add: colnames_def)
  show ?thesis
    using r t f cnt nf by (intro exI [of _ ?m]) simp
qed

theorem target_first_column_witness:
  "columns small_churn ! 2 \<in> set (columns small_churn)
   \<and> name (columns small_churn ! 2) = ''Churn?''
   \<and> dtype (columns small_churn ! 2) = Object
   \<and> StrV ''True.'' \<in> set (vals (columns small_churn ! 2))
   \<and> StrV ''False.'' \<in> set (vals (columns small_churn ! 2))
   \<and> distinct (colnames (get_dummies float_str0 small_churn))
   \<and> cell32 float_str0 small_churn = Inr small_model_data
   \<and> count_list (colnames small_model_data) ''Churn?_True.'' = 1
   \<and> ''Churn?_False.'' \<notin> set (colnames small_model_data)"
proof -
  have h: "columns small_churn ! 2 \<in> set (columns small_churn)"
    "name (columns small_churn ! 2) = ''Churn?''"
    "dtype (columns small_churn ! 2) = Object"
    "StrV ''True.'' \<in> set (vals (columns small_churn ! 2))"
    "StrV ''False.'' \<in> set (vals (columns small_churn ! 2))"
    by (simp_all add: small_churn_def)
  have d: "distinct (colnames (get_dummies float_str0 small_churn))" by code_simp
  have e: "cell32 float_str0 small_churn = Inr small_model_data" by code_simp
  have "count_list (colnames small_model_data) ''Churn?_True.'' = 1
      \<and> ''Churn?_False.'' \<notin> set (colnames small_model_data)"
    using target_first_column [OF h d] e by auto
  then show ?thesis using h d e by blast
qed

text \<open>
  C8. Let the table be one of which cell 32 makes a model dataset (a column \<open>Churn?\<close>
  of dtype \<open>object\<close> with both values, no two encoded columns of one name), and let
  cell 34 split the model dataset, with \<open>locs\<close> the permutation of the row positions
  that the shuffle draws. The training and the validation frame have the columns of the
  model dataset, with the label \<open>Churn?_True.\<close> first, and \<open>to_csv\<close> writes them
  whole. The batch input of cell 58 has the rows of the test frame, its columns are the
  test frame's columns other than the label, and each line written for it is the test
  frame's line without its first field.
\<close>

theorem label_absent_from_batch:
  assumes "c \<in> set (columns churn)" and "name c = ''Churn?''" and "dtype c = Object"
    and "StrV ''True.'' \<in> set (vals c)" and "StrV ''False.'' \<in> set (vals c)"
    and "distinct (colnames (get_dummies fs churn))"
    and "cell32 fs churn = Inr model_data"
    and "mset locs = mset [0..<nrows model_data]"
    and "cell34 locs model_data = (train_data, validation_data, test_data)"
  shows "hd (colnames train_data) = ''Churn?_True.''
    \<and> hd (colnames validation_data) = ''Churn?_True.''
    \<and> hd (colnames test_data) = ''Churn?_True.''
    \<and> colnames train_data = colnames model_data
    \<and> colnames validation_data = colnames model_data
    \<and> to_csv train_data = map snd (rows train_data)
    \<and> to_csv validation_data = map snd (rows validation_data)
    \<and> ''Churn?_True.'' \<notin> set (colnames (cell58 test_data))
    \<and> colnames (cell58 test_data) = filter (\<lambda>n. n \<noteq> ''Churn?_True.'') (colnames test_data)
    \<and> nrows (cell58 test_data) = nrows test_data
    \<and> to_csv (cell58 test_data) = map tl (to_csv test_data)"
proof -
  let ?rest = "filter (\<lambda>d. name d \<notin> set [''Churn?_False.'', ''Churn?_True.''])
    (columns (get_dummies fs churn))"
  have "cell32 fs churn = Inr \<lparr>index = index churn,
      columns = \<lparr>name = ''Churn?_True.'', dtype = UInt8,
        vals = map (\<lambda>x. if x = StrV ''True.'' then IntV 1 else IntV 0) (vals c)\<rparr> # ?rest\<rparr>"
    using assms(1-6) by (rule cell32_result)
  then have m: "colnames model_data = ''Churn?_True.'' # map name ?rest"
    using assms(7) by (auto simp add: colnames_def)
  have n: "''Churn?_True.'' \<notin> set (map name ?rest)" by auto
  note cn = colnames_cell34 [OF assms(9)]
  have b: "colnames (cell58 test_data) = map name ?rest"
    using cn m by (simp add: colnames_cell58)
  have "filter (\<lambda>n. n \<noteq> ''Churn?_True.'') (colnames test_data) = map name ?rest"
    using cn m n by (simp add: filter_id_conv)
  then have flt: "colnames (cell58 test_data) =
      filter (\<lambda>n. n \<noteq> ''Churn?_True.'') (colnames test_data)"
    using b by simp
  have absent: "''Churn?_True.'' \<notin> set (colnames (cell58 test_data))"
    using n by (simp only: b not_False_eq_True)
  have csv: "to_csv df = map snd (rows df)" for df
    by (simp add: to_csv_def rows_def o_def)
  have nr: "nrows (cell58 test_data) = nrows test_data"
    by (simp add: cell58_def iloc_columns_from_def nrows_def)
  show ?thesis
    using cn m flt absent nr csv to_csv_cell58 by simp
qed

theorem label_absent_from_batch_witness:
  "columns small_churn ! 2 \<in> set (columns small_churn)
   \<and> name (columns small_churn ! 2) = ''Churn?''
   \<and> dtype (columns small_churn ! 2) = Object
   \<and> StrV ''True.'' \<in> set (vals (columns small_churn ! 2))
   \<and> StrV ''False.'' \<in> set (vals (columns small_churn ! 2))
   \<and> distinct (colnames (get_dummies float_str0 small_churn))
   \<and> cell32 float_str0 small_churn = Inr small_model_data
   \<and> mset [2, 0, 3, 1] = mset [0..<nrows small_model_data]
   \<and> to_csv (snd (snd (cell34 [2, 0, 3, 1] small_model_data))) =
       [[IntV 1, FloatV (1616 / 10), IntV 0, IntV 0, IntV 1]]
   \<and> to_csv (cell58 (snd (snd (cell34 [2, 0, 3, 1] small_model_data)))) =
       [[FloatV (1616 / 10), IntV 0, IntV 0, IntV 1]]
   \<and> ''Churn?_True.'' \<notin> set (colnames (cell58 (snd (snd (cell34 [2, 0, 3, 1] small_model_data)))))
   \<and> hd (colnames (fst (cell34 [2, 0, 3, 1] small_model_data))) = ''Churn?_True.''"
proof -
  have h: "columns small_churn ! 2 \<in> set (columns small_churn)"
    "name (columns small_churn ! 2) = ''Churn?''"
    "dtype (columns small_churn ! 2) = Object"
    "StrV ''True.'' \<in> set (vals (columns small_churn ! 2))"
    "StrV ''False.'' \<in> set (vals (columns small_churn ! 2))"
    by (simp_all add: small_churn_def)
  have d: "distinct (colnames (get_dummies float_str0 small_churn))" by code_simp
  have e: "cell32 float_str0 small_churn = Inr small_model_data" by code_simp
  have s: "cell34 [2, 0, 3, 1] small_model_data =
      (fst (cell34 [2, 0, 3, 1] small_model_data),
       fst (snd (cell34 [2, 0, 3, 1] small_model_data)),
       snd (snd (cell34 [2, 0, 3, 1] small_model_data)))"
    by simp
  have n: "nrows small_model_data = 4" by (simp add: nrows_def small_model_data_def)
  have p: "mset [2, 0, 3, 1] = mset [0..<nrows small_model_data]"
    unfolding n by code_simp
  have i1: "int_of_product c07 4 = 2"
    by (simp add: int_of_product_def round_binary64_def round_to_def excess_bits.simps
        c07_def Let_def)
  have i2: "int_of_product c09 4 = 3"
    by (simp add: int_of_product_def round_binary64_def round_to_def excess_bits.simps
        c09_def Let_def)
  have t: "snd (snd (cell34 [2, 0, 3, 1] small_model_data)) =
      \<lparr>index = [1],
       columns =
        [\<lparr>name = ''Churn?_True.'', dtype = UInt8, vals = [IntV 1]\<rparr>,
         \<lparr>name = ''Day Mins'', dtype = Float64, vals = [FloatV (1616 / 10)]\<rparr>,
         \<lparr>name = ''State_KS'', dtype = UInt8, vals = [IntV 0]\<rparr>,
         \<lparr>name = ''State_NJ'', dtype = UInt8, vals = [IntV 0]\<rparr>,
         \<lparr>name = ''State_OH'', dtype = UInt8, vals = [IntV 1]\<rparr>]\<rparr>"
    by (simp add: cell34_def np_split_def n i1 i2 sample_def nrows_take_rows)
      (simp add: take_rows_def slice_rows_def small_model_data_def)
  have c: "to_csv (snd (snd (cell34 [2, 0, 3, 1] small_model_data))) =
       [[IntV 1, FloatV (1616 / 10), IntV 0, IntV 0, IntV 1]]"
    unfolding t by (simp add: to_csv_def nrows_def row_values_def)
  note r = label_absent_from_batch [OF h d e p s]
  have a1: "hd (colnames (fst (cell34 [2, 0, 3, 1] small_model_data))) = ''Churn?_True.''"
    using r by (elim conjE)
  have a2: "''Churn?_True.'' \<notin>
      set (colnames (cell58 (snd (snd (cell34 [2, 0, 3, 1] small_model_data)))))"
    using r by (elim conjE)
  have "to_csv (cell58 (snd (snd (cell34 [2, 0, 3, 1] small_model_data)))) =
      map tl (to_csv (snd (snd (cell34 [2, 0, 3, 1] small_model_data))))"
    using r by (elim conjE)
  then have a3: "to_csv (cell58 (snd (snd (cell34 [2, 0, 3, 1] small_model_data)))) =
       [[FloatV (1616 / 10), IntV 0, IntV 0, IntV 1]]"
    by (simp only: c) simp
  show ?thesis using h d e p c a1 a2 a3 by blast
qed

subsection \<open>Rounding at one half\<close>


lemma np_round_one: "1 / 2 < x \<Longrightarrow> x < 3 / 2 \<Longrightarrow> np_round x = 1"
proof -
  assume lo: "1 / 2 < x" and hi: "x < 3 / 2"
  have "\<lfloor>x\<rfloor> = 0 \<or> \<lfloor>x\<rfloor> = 1" using lo hi by linarith
  then show ?thesis
  proof
    assume "\<lfloor>x\<rfloor> = 0"
    then show ?thesis using lo by (simp add: np_round_def Let_def)
  next
    assume "\<lfloor>x\<rfloor> = 1"
    then show ?thesis using hi by (auto simp add: np_round_def Let_def)
  qed
qed

lemma np_round_bounds: "x - 1 / 2 \<le> of_int (np_round x) \<and> of_int (np_round x) \<le> x + 1 / 2"
  unfolding np_round_def Let_def by (auto; linarith)

lemma np_round_floor: "\<lfloor>x\<rfloor> \<le> np_round x \<and> np_round x \<le> \<lfloor>x\<rfloor> + 1"
  by (simp add: np_round_def Let_def)

lemma np_round_mono: "x \<le> y \<Longrightarrow> np_round x \<le> np_round y"
proof -
  assume xy: "x \<le> y"
  have fl: "\<lfloor>x\<rfloor> \<le> \<lfloor>y\<rfloor>" using xy by (rule floor_mono)
  show ?thesis
  proof (cases "\<lfloor>x\<rfloor> = \<lfloor>y\<rfloor>")
    case True
    then show ?thesis using xy by (auto simp add: np_round_def Let_def)
  next
    case False
    then have "\<lfloor>x\<rfloor> + 1 \<le> \<lfloor>y\<rfloor>" using fl by simp
    then show ?thesis using np_round_floor [of x] np_round_floor [of y] by linarith
  qed
qed

lemma np_round_not_binary: "np_round (17 / 10) = 2 \<and> np_round (- (7 / 10)) = - 1"
  by code_simp



text \<open>
  C3. Thresholding is monotonic: for scores \<open>s1 \<le> s2\<close> the rounded value of \<open>s1\<close> is
  at most that of \<open>s2\<close>, so raising a score never turns a label 1 into a label 0; and
  when \<open>s2\<close> is a probability (below \<open>3/2\<close>), a label 1 for \<open>s1\<close> gives a label 1 for
  \<open>s2\<close>.
\<close>

theorem threshold_monotonic:
  assumes "s1 \<le> s2"
  shows "np_round s1 \<le> np_round s2
    \<and> (np_round s1 = 1 \<longrightarrow> np_round s2 \<noteq> 0)
    \<and> (s2 < 3 / 2 \<longrightarrow> np_round s1 = 1 \<longrightarrow> np_round s2 = 1)"
proof -
  have m: "np_round s1 \<le> np_round s2" using assms by (rule np_round_mono)
  have u: "np_round s2 \<le> 1" if "s2 < 3 / 2"
  proof -
    have "of_int (np_round s2) \<le> s2 + 1 / 2" using np_round_bounds [of s2] by simp
    then have "(of_int (np_round s2) :: rat) < 2" using that by linarith
    then show ?thesis by linarith
  qed
  show ?thesis using m u by auto
qed

theorem threshold_monotonic_witness:
  "np_round (6 / 10) \<le> np_round (9 / 10) \<and> np_round (6 / 10) = 1 \<and> np_round (9 / 10) = 1"
  using threshold_monotonic [of "6 / 10" "9 / 10"] np_round_one [of "6 / 10"]
  by simp

subsection \<open>The evaluator on binary labels\<close>









subsection \<open>Which names are bound when the evaluation cell runs\<close>

lemma exec_keeps_unbound:
  "x \<notin> ns \<Longrightarrow> Store x \<notin> set es \<Longrightarrow> x \<notin> snd (exec es ns)"
proof (induction es arbitrary: ns)
  case Nil
  then show ?case by simp
next
  case (Cons e es)
  then show ?case by (cases e) auto
qed

lemma test_y_never_stored: "(k, es) \<in> set notebook \<Longrightarrow> Store ''test_y'' \<notin> set es"
  by (auto simp add: notebook_def cell46_def cell67_def)

lemma metrics_stored_by_cell67:
  "(k, es) \<in> set notebook \<Longrightarrow>
     es = cell67 \<or> (Store ''temp_precision'' \<notin> set es \<and> Store ''output'' \<notin> set es)"
  by (auto simp add: notebook_def cell46_def)

lemma cell67_stops:
  assumes "''test_y'' \<notin> ns"
  shows "snd (exec (take j cell67) ns) = ns"
proof (cases j)
  case 0
  then show ?thesis by simp
next
  case (Suc m)
  then show ?thesis using assms by (cases m) (simp_all add: cell67_def)
qed

lemma run_all_fails: "fst (run_all notebook {}) = Some (67, NameError ''test_y'')"
  by (simp add: notebook_def cell46_def cell67_def)

lemma reachable_invariant:
  "reachable ns \<Longrightarrow>
     ''test_y'' \<notin> ns \<and> ''temp_precision'' \<notin> ns \<and> ''output'' \<notin> ns"
proof (induction rule: reachable.induct)
  case fresh
  then show ?case by simp
next
  case (run ns k es j)
  have sub: "Store x \<notin> set es \<Longrightarrow> Store x \<notin> set (take j es)" for x
    using set_take_subset [of j es] by blast
  have t: "''test_y'' \<notin> snd (exec (take j es) ns)"
    using run test_y_never_stored [OF run(2)] by (intro exec_keeps_unbound sub) simp_all
  show ?case
  proof (cases "es = cell67")
    case True
    then show ?thesis using run cell67_stops [of ns j] by simp
  next
    case False
    then have "Store ''temp_precision'' \<notin> set es" "Store ''output'' \<notin> set es"
      using metrics_stored_by_cell67 [OF run(2)] by simp_all
    then have "''temp_precision'' \<notin> snd (exec (take j es) ns)"
      "''output'' \<notin> snd (exec (take j es) ns)"
      using run by (simp_all add: exec_keeps_unbound sub)
    then show ?thesis using t by simp
  qed
qed

text \<open>
  C9. No cell binds \<open>test_y\<close> (cell 46 binds \<open>train_y\<close>, \<open>train_X\<close>, \<open>valid_y\<close> and
  \<open>valid_X\<close> only). So in every namespace a session can reach, in whatever order the
  cells are run, \<open>test_y\<close> is unbound; cell 67 raises \<open>NameError\<close> before it binds
  anything, for \<open>test_y\<close> once \<open>get_score\<close> is defined; and the names that would hold
  the metrics, \<open>temp_precision\<close> and \<open>output\<close>, are never bound. Run from top to
  bottom, the notebook stops at cell 67 with \<open>NameError\<close> for \<open>test_y\<close>.
\<close>

theorem evaluation_never_succeeds:
  assumes "reachable ns"
  shows "''test_y'' \<notin> ns \<and> ''temp_precision'' \<notin> ns \<and> ''output'' \<notin> ns
    \<and> (\<exists>x. exec cell67 ns = (Some (NameError x), ns))
    \<and> (''get_score'' \<in> ns \<longrightarrow> exec cell67 ns = (Some (NameError ''test_y''), ns))
    \<and> [x. Store x \<leftarrow> cell46] = [''train_y'', ''train_X'', ''valid_y'', ''valid_X'']
    \<and> fst (run_all notebook {}) = Some (67, NameError ''test_y'')"
proof -
  note inv = reachable_invariant [OF assms]
  have a: "\<exists>x. exec cell67 ns = (Some (NameError x), ns)"
    using inv by (simp add: cell67_def)
  have b: "''get_score'' \<in> ns \<longrightarrow> exec cell67 ns = (Some (NameError ''test_y''), ns)"
    using inv by (simp add: cell67_def)
  have c: "[x. Store x \<leftarrow> cell46] = [''train_y'', ''train_X'', ''valid_y'', ''valid_X'']"
    by (simp add: cell46_def)
  show ?thesis using inv a b c run_all_fails by blast
qed

theorem evaluation_never_succeeds_witness:
  "reachable {''get_score''}
   \<and> exec cell67 {''get_score''} = (Some (NameError ''test_y''), {''get_score''})"
proof -
  have "(66, [Store ''get_score'']) \<in> set notebook" by (simp add: notebook_def)
  from reachable.run [OF reachable.fresh this, of 1]
  have r: "reachable {''get_score''}" by simp
  show ?thesis using evaluation_never_succeeds [OF r] r by simp
qed

end
